theory Spec2Isabelle
  imports Main
begin

section \<open>JavaScript values used by the scraper\<close>

text \<open>
  The program computes with JavaScript numbers that come out of \<open>parseInt\<close>: an integer or
  the invalid number \<open>NaN\<close>. They are modelled as exact integers plus \<open>NaN\<close>, which agrees
  with double arithmetic as long as magnitudes stay below \<open>2^53\<close>. Strings are lists of
  8-bit characters.
\<close>

datatype jsnum = NaN | Num int

fun js_add :: "jsnum \<Rightarrow> jsnum \<Rightarrow> jsnum" where
  "js_add (Num a) (Num b) = Num (a + b)"
| "js_add _ _ = NaN"

fun js_mul :: "jsnum \<Rightarrow> jsnum \<Rightarrow> jsnum" where
  "js_mul (Num a) (Num b) = Num (a * b)"
| "js_mul _ _ = NaN"

text \<open>The relational operator \<open><\<close>: any comparison with \<open>NaN\<close> is false.\<close>

fun js_lt :: "jsnum \<Rightarrow> jsnum \<Rightarrow> bool" where
  "js_lt (Num a) (Num b) = (a < b)"
| "js_lt _ _ = False"

text \<open>The nullish coalescing operator \<open>??\<close>.\<close>

fun nullish :: "'a option \<Rightarrow> 'a \<Rightarrow> 'a" where
  "nullish None d = d"
| "nullish (Some v) d = v"

text \<open>White space as \<open>parseInt\<close> and the regular expression class \<open>\s\<close> see it.\<close>

definition isWhite :: "char \<Rightarrow> bool" where
  "isWhite c = (c = CHR '' '' \<or> c = CHR 0x09 \<or> c = CHR 0x0A \<or> c = CHR 0x0B
                \<or> c = CHR 0x0C \<or> c = CHR 0x0D \<or> c = CHR 0xA0)"

text \<open>The value of a character as a digit of a radix up to 36, 36 when it is none.\<close>

definition digitVal :: "char \<Rightarrow> nat" where
  "digitVal c =
     (let k = of_char c :: nat in
      if 48 \<le> k \<and> k \<le> 57 then k - 48
      else if 97 \<le> k \<and> k \<le> 122 then k - 87
      else if 65 \<le> k \<and> k \<le> 90 then k - 55
      else 36)"

definition isDigitOf :: "nat \<Rightarrow> char \<Rightarrow> bool" where
  "isDigitOf radix c = (digitVal c < radix)"

definition digitsValue :: "nat \<Rightarrow> string \<Rightarrow> nat" where
  "digitsValue radix ds = foldl (\<lambda>a c. a * radix + digitVal c) 0 ds"

text \<open>
  \<open>parseInt(s)\<close> with no radix argument: leading white space is skipped, one sign is read,
  a \<open>0x\<close> or \<open>0X\<close> prefix selects radix 16, and the longest prefix of digits is the value.
  With no digit the result is \<open>NaN\<close>.
\<close>

fun splitSign :: "string \<Rightarrow> int \<times> string" where
  "splitSign [] = (1, [])"
| "splitSign (c # r) =
     (if c = CHR ''-'' then (- 1, r) else if c = CHR ''+'' then (1, r) else (1, c # r))"

fun splitRadix :: "string \<Rightarrow> nat \<times> string" where
  "splitRadix (a # b # r) =
     (if a = CHR ''0'' \<and> (b = CHR ''x'' \<or> b = CHR ''X'') then (16, r) else (10, a # b # r))"
| "splitRadix s = (10, s)"

definition parseInt :: "string \<Rightarrow> jsnum" where
  "parseInt s =
     (case splitSign (dropWhile isWhite s) of (sign, u) \<Rightarrow>
      case splitRadix u of (radix, v) \<Rightarrow>
        let ds = takeWhile (isDigitOf radix) v
        in if ds = [] then NaN else Num (sign * int (digitsValue radix ds)))"

text \<open>
  The template literal \<open>`${n}`\<close> of a number: \<open>NaN\<close> prints as such, an integer in decimal
  (the exponent notation of magnitudes from \<open>10^21\<close> on is outside the modelled range).
\<close>

definition digitChar :: "nat \<Rightarrow> char" where
  "digitChar d = ''0123456789'' ! d"

fun showNat :: "nat \<Rightarrow> string" where
  "showNat n = (if n < 10 then [digitChar n] else showNat (n div 10) @ [digitChar (n mod 10)])"

declare showNat.simps [simp del]

definition toString :: "jsnum \<Rightarrow> string" where
  "toString x =
     (case x of NaN \<Rightarrow> ''NaN''
      | Num i \<Rightarrow> if i < 0 then CHR ''-'' # showNat (nat (- i)) else showNat (nat i))"

section \<open>Data model\<close>

record HouseData =
  url :: "string option"
  maintenanceFee :: "string option"
  areaOfTHeHouse :: "string option"
  numberOfDorms :: "string option"
  numberOfBathrooms :: "string option"
  rentPrice :: "string option"
  description :: "string option"

text \<open>One entry of the data store; the seen-set is an object from URL to a flag.\<close>

record SearchConfig =
  searchLinks :: "string list"
  alreadySeenHouses :: "string \<rightharpoonup> bool"
  maxPrice :: int

text \<open>
  The data store is a JSON object: its entries in enumeration order, keys distinct.
\<close>

type_synonym DataStore = "(string \<times> SearchConfig) list"

section \<open>Price normalisation and the budget filter\<close>

definition stripDots :: "string \<Rightarrow> string" where
  "stripDots rawPrice = filter (\<lambda>c. c \<noteq> CHR ''.'') rawPrice"

text \<open>\<open>UF_VALUE\<close> is read from the environment with \<open>parseInt\<close>; it is a parameter here.\<close>

definition convertIntoClp :: "jsnum \<Rightarrow> string \<Rightarrow> string \<Rightarrow> jsnum" where
  "convertIntoClp UF_VALUE rawPrice unitPrice =
     (let price = stripDots rawPrice
      in if unitPrice = ''UF'' then js_mul (parseInt price) UF_VALUE else parseInt price)"

text \<open>The predicate of the \<open>filter\<close> call that ends \<open>retrieveHousesDataFromFilterLink\<close>.\<close>

definition qualifies :: "HouseData \<Rightarrow> int \<Rightarrow> bool" where
  "qualifies house maxTotal =
     js_lt (js_add (parseInt (nullish (rentPrice house) ''0''))
                   (parseInt (nullish (maintenanceFee house) ''0'')))
           (Num maxTotal)"

section \<open>The pages the browser shows\<close>

text \<open>
  A result card is what \<open>houseCard.$("a")\<close> and the read of \<open>href\<close> give: the query may
  throw, find no anchor, or yield the anchor's address.
\<close>

datatype card = Throws | Missing | Found string

text \<open>
  The house page as the selectors of \<open>retrieveHouseCardInfo\<close> and \<open>retrieveSpecs\<close> see it:
  the text of the first element of each class (absent when there is none) and the texts of
  all specification labels in document order.
\<close>

record DetailPage =
  fraction :: "string option"
  currencySymbol :: "string option"
  title :: "string option"
  specLabels :: "string list"
  maintenanceLabel :: "string option"

datatype navigation = SearchPage string | HousePage string

datatype error = NavigationError | DeliveryError | TypeError | StoreError

text \<open>
  What a run changes: the file \<open>dataStore.json\<close> (absent when missing or not parseable),
  the pages opened so far, and the calls made to the messaging API so far, each with its
  chat and the houses of its message.
\<close>

record RunState =
  dataStoreFile :: "DataStore option"
  opened :: "navigation list"
  posted :: "(string \<times> HouseData list) list"

text \<open>
  What a run reads from outside: the cards of a search page and the content of a house
  page (absent when navigation or a query throws), and whether a call to the messaging
  API succeeds, given the calls made before it. The pages do not change during a run.
  Launching and closing the browser and writing the file are taken to succeed.
\<close>

record World =
  searchResults :: "string \<Rightarrow> card list option"
  housePages :: "string \<Rightarrow> DetailPage option"
  postSucceeds :: "(string \<times> HouseData list) list \<Rightarrow> string \<Rightarrow> HouseData list \<Rightarrow> bool"

record Env =
  CHUNK_SIZE :: jsnum
  UF_VALUE :: jsnum

section \<open>The data store\<close>

definition readDataStore :: "RunState \<Rightarrow> error + DataStore" where
  "readDataStore s = (case dataStoreFile s of None \<Rightarrow> Inl StoreError | Some d \<Rightarrow> Inr d)"

text \<open>
  The loop of \<open>updateAlreadySeenHouses\<close>: \<open>chatConfig\<close> is undefined when the store has no
  entry for the chat, and the first assignment then throws.
\<close>

fun markLoop :: "SearchConfig option \<Rightarrow> HouseData list \<Rightarrow> error + SearchConfig option" where
  "markLoop chatConfig [] = Inr chatConfig"
| "markLoop None (house # rest) = Inl TypeError"
| "markLoop (Some chatConfig) (house # rest) =
     markLoop (Some (chatConfig\<lparr>alreadySeenHouses :=
                        (alreadySeenHouses chatConfig)(nullish (url house) [] \<mapsto> True)\<rparr>)) rest"

text \<open>
  \<open>chatConfig\<close> is the entry object that \<open>dataStore[chatId]\<close> names, so mutating it changes
  the store in place.
\<close>

fun setEntry :: "string \<Rightarrow> SearchConfig \<Rightarrow> DataStore \<Rightarrow> DataStore" where
  "setEntry chatId chatConfig [] = []"
| "setEntry chatId chatConfig ((k, v) # rest) =
     (if k = chatId then (k, chatConfig) # rest else (k, v) # setEntry chatId chatConfig rest)"

definition updateAlreadySeenHouses ::
  "string \<Rightarrow> HouseData list \<Rightarrow> RunState \<Rightarrow> (error + unit) \<times> RunState" where
  "updateAlreadySeenHouses chatId housesData s =
     (case readDataStore s of
        Inl e \<Rightarrow> (Inl e, s)
      | Inr dataStore \<Rightarrow>
          (case markLoop (map_of dataStore chatId) housesData of
             Inl e \<Rightarrow> (Inl e, s)
           | Inr None \<Rightarrow> (Inr (), s\<lparr>dataStoreFile := Some dataStore\<rparr>)
           | Inr (Some chatConfig) \<Rightarrow>
               (Inr (), s\<lparr>dataStoreFile := Some (setEntry chatId chatConfig dataStore)\<rparr>)))"

section \<open>Delivery\<close>

text \<open>
  The message text is a function of the houses, so a call is recorded with the houses.
\<close>

definition sendMessageToTelegram ::
  "World \<Rightarrow> string \<Rightarrow> HouseData list \<Rightarrow> RunState \<Rightarrow> (error + unit) \<times> RunState" where
  "sendMessageToTelegram w chatId dataMessage s =
     (if length dataMessage = 0 then (Inr (), s)
      else
        let s' = s\<lparr>posted := posted s @ [(chatId, dataMessage)]\<rparr>
        in if postSucceeds w (posted s) chatId dataMessage then (Inr (), s')
           else (Inl DeliveryError, s'))"

section \<open>Extraction\<close>

definition isAmountChar :: "char \<Rightarrow> bool" where
  "isAmountChar c = (c = CHR ''.'' \<or> (48 \<le> (of_char c :: nat) \<and> (of_char c :: nat) \<le> 57))"

text \<open>
  The first match of \<open>/\$\s*([0-9.]+)/\<close> and its group: at each dollar sign from the left,
  white space, then the longest run of digits and dots, which must not be empty.
\<close>

fun matchMaintenanceFee :: "string \<Rightarrow> string option" where
  "matchMaintenanceFee [] = None"
| "matchMaintenanceFee (c # r) =
     (if c = CHR ''$'' \<and> takeWhile isAmountChar (dropWhile isWhite r) \<noteq> []
      then Some (takeWhile isAmountChar (dropWhile isWhite r))
      else matchMaintenanceFee r)"

text \<open>\<open>specs?.[k]?.evaluate(...)\<close>: undefined past the end.\<close>

definition nthOpt :: "'a list \<Rightarrow> nat \<Rightarrow> 'a option" where
  "nthOpt xs k = (if k < length xs then Some (xs ! k) else None)"

text \<open>The result is (numberOfBathrooms, areaOfTheHouse, numberOfDorms, maintenanceFee).\<close>

definition retrieveSpecs ::
  "DetailPage \<Rightarrow> string option \<times> string option \<times> string option \<times> string option" where
  "retrieveSpecs housePage =
     (let specs = specLabels housePage;
          rawMaintenaceFee = nullish (maintenanceLabel housePage) [];
          fee = matchMaintenanceFee rawMaintenaceFee
      in (nthOpt specs 2, nthOpt specs 0, nthOpt specs 1, fee))"

text \<open>\<open>x ? x : null\<close> on a string that may be absent: the empty string is falsy.\<close>

fun truthyOrNull :: "string option \<Rightarrow> string option" where
  "truthyOrNull None = None"
| "truthyOrNull (Some t) = (if t = [] then None else Some t)"

text \<open>The object \<open>retrieveHouseCardInfo\<close> returns once the house page has been read.\<close>

definition houseOfPage :: "jsnum \<Rightarrow> string \<Rightarrow> DetailPage \<Rightarrow> HouseData" where
  "houseOfPage uf u housePage =
     (let price = fraction housePage;
          unitPrice = nullish (currencySymbol housePage) [];
          descr = title housePage
      in case retrieveSpecs housePage of
           (baths, area, dorms, fee) \<Rightarrow>
             let priceInClp = convertIntoClp uf (nullish price ''0'') unitPrice
             in \<lparr> url = Some u,
                  maintenanceFee = fee,
                  areaOfTHeHouse = truthyOrNull area,
                  numberOfDorms = truthyOrNull dorms,
                  numberOfBathrooms = baths,
                  rentPrice = (if truthyOrNull price = None then None
                               else Some (toString priceInClp)),
                  description = truthyOrNull descr \<rparr>)"

text \<open>
  A property read of the seen-set object is truthy exactly for the flag \<open>true\<close>. The keys
  asked for are addresses of pages, never the names of properties that every object
  inherits.
\<close>

definition isSeen :: "(string \<rightharpoonup> bool) \<Rightarrow> string \<Rightarrow> bool" where
  "isSeen seen u = (seen u = Some True)"

text \<open>
  The address that the anchor query of a card gives: none when the query throws, the empty
  text when the card has no anchor.
\<close>

fun anchorHref :: "card \<Rightarrow> string option" where
  "anchorHref Throws = None"
| "anchorHref Missing = Some []"
| "anchorHref (Found h) = Some h"

text \<open>
  \<open>retrieveHouseCardInfo\<close>: the whole body is inside \<open>try\<close>, so every failure gives null.
  \<open>rawUrl.split("#")[0]\<close> is the text before the first \<open>#\<close>. A house page is recorded as
  opened as soon as the navigation to it starts.
\<close>

definition retrieveHouseCardInfo ::
  "World \<Rightarrow> jsnum \<Rightarrow> card \<Rightarrow> (string \<rightharpoonup> bool) \<Rightarrow> RunState \<Rightarrow> HouseData option \<times> RunState" where
  "retrieveHouseCardInfo w uf houseCard seen s =
     (case anchorHref houseCard of
        None \<Rightarrow> (None, s)
      | Some rawUrl \<Rightarrow>
          (let u = takeWhile (\<lambda>c. c \<noteq> CHR ''#'') rawUrl;
               isHouseAlreadySeen = isSeen seen u
           in if u = [] \<or> isHouseAlreadySeen then (None, s)
              else (let s' = s\<lparr>opened := opened s @ [HousePage u]\<rparr>
                    in (case housePages w u of
                          None \<Rightarrow> (None, s')
                        | Some housePage \<Rightarrow> (Some (houseOfPage uf u housePage), s')))))"

fun cardLoop ::
  "World \<Rightarrow> jsnum \<Rightarrow> card list \<Rightarrow> (string \<rightharpoonup> bool) \<Rightarrow> HouseData list \<Rightarrow> RunState
     \<Rightarrow> HouseData list \<times> RunState" where
  "cardLoop w uf [] seen housesData s = (housesData, s)"
| "cardLoop w uf (houseCard # rest) seen housesData s =
     (case retrieveHouseCardInfo w uf houseCard seen s of
        (None, s') \<Rightarrow> cardLoop w uf rest seen housesData s'
      | (Some houseData, s') \<Rightarrow> cardLoop w uf rest seen (housesData @ [houseData]) s')"

text \<open>Navigation to the search page is outside any \<open>try\<close>: its failure propagates.\<close>

definition retrieveHousesDataFromFilterLink ::
  "World \<Rightarrow> jsnum \<Rightarrow> string \<Rightarrow> (string \<rightharpoonup> bool) \<Rightarrow> SearchConfig \<Rightarrow> RunState
     \<Rightarrow> (error + HouseData list) \<times> RunState" where
  "retrieveHousesDataFromFilterLink w uf link seen searchConfig s =
     (let s1 = s\<lparr>opened := opened s @ [SearchPage link]\<rparr>
      in case searchResults w link of
           None \<Rightarrow> (Inl NavigationError, s1)
         | Some allHouseCards \<Rightarrow>
             (case cardLoop w uf allHouseCards seen [] s1 of
                (housesData, s2) \<Rightarrow>
                  (Inr (filter (\<lambda>house. qualifies house (maxPrice searchConfig)) housesData), s2)))"

section \<open>Batching\<close>

text \<open>\<open>Array.prototype.slice\<close>: \<open>NaN\<close> counts as 0, a negative index counts from the end.\<close>

fun toInteger :: "jsnum \<Rightarrow> int" where
  "toInteger NaN = 0"
| "toInteger (Num i) = i"

definition clampIndex :: "int \<Rightarrow> int \<Rightarrow> nat" where
  "clampIndex len rel = (if rel < 0 then nat (max (len + rel) 0) else nat (min rel len))"

definition slice :: "'a list \<Rightarrow> jsnum \<Rightarrow> jsnum \<Rightarrow> 'a list" where
  "slice array start end =
     (let len = int (length array);
          k = clampIndex len (toInteger start);
          final = clampIndex len (toInteger end)
      in take (final - k) (drop k array))"

text \<open>
  The loop of \<open>chunkArray\<close> may run forever, so it is a partial function: \<open>None\<close> is the
  loop that does not return.
\<close>

partial_function (option) chunkLoop ::
  "'a list \<Rightarrow> jsnum \<Rightarrow> jsnum \<Rightarrow> 'a list list \<Rightarrow> 'a list list option" where
  "chunkLoop array chunkSize i chunkedArray =
     (if js_lt i (Num (int (length array)))
      then chunkLoop array chunkSize (js_add i chunkSize)
             (chunkedArray @ [slice array i (js_add i chunkSize)])
      else Some chunkedArray)"

declare chunkLoop.simps [code]

definition chunkArray :: "'a list \<Rightarrow> jsnum \<Rightarrow> 'a list list option" where
  "chunkArray array chunkSize = chunkLoop array chunkSize (Num 0) []"

section \<open>The run of one chat, and of all chats\<close>

fun linkLoop ::
  "World \<Rightarrow> jsnum \<Rightarrow> string list \<Rightarrow> (string \<rightharpoonup> bool) \<Rightarrow> SearchConfig \<Rightarrow> HouseData list
     \<Rightarrow> RunState \<Rightarrow> (error + HouseData list) \<times> RunState" where
  "linkLoop w uf [] seen searchConfig allHousesLinkData s = (Inr allHousesLinkData, s)"
| "linkLoop w uf (houseLink # rest) seen searchConfig allHousesLinkData s =
     (case retrieveHousesDataFromFilterLink w uf houseLink seen searchConfig s of
        (Inl e, s') \<Rightarrow> (Inl e, s')
      | (Inr housesFromLink, s') \<Rightarrow>
          linkLoop w uf rest seen searchConfig (allHousesLinkData @ housesFromLink) s')"

fun sendLoop ::
  "World \<Rightarrow> string \<Rightarrow> HouseData list list \<Rightarrow> RunState \<Rightarrow> (error + unit) \<times> RunState" where
  "sendLoop w chatId [] s = (Inr (), s)"
| "sendLoop w chatId (chunk # rest) s =
     (case sendMessageToTelegram w chatId chunk s of
        (Inl e, s') \<Rightarrow> (Inl e, s')
      | (Inr _, s') \<Rightarrow> sendLoop w chatId rest s')"

definition processSearchHousesByChat ::
  "World \<Rightarrow> Env \<Rightarrow> string \<Rightarrow> SearchConfig \<Rightarrow> RunState \<Rightarrow> ((error + unit) \<times> RunState) option" where
  "processSearchHousesByChat w env chatId searchConfig s =
     (let seachLinks = searchLinks searchConfig;
          seen = alreadySeenHouses searchConfig
      in case linkLoop w (UF_VALUE env) seachLinks seen searchConfig [] s of
           (Inl e, s1) \<Rightarrow> Some (Inl e, s1)
         | (Inr allHousesLinkData, s1) \<Rightarrow>
             (case chunkArray allHousesLinkData (CHUNK_SIZE env) of
                None \<Rightarrow> None
              | Some chunkedData \<Rightarrow>
                  (case sendLoop w chatId chunkedData s1 of
                     (Inl e, s2) \<Rightarrow> Some (Inl e, s2)
                   | (Inr _, s2) \<Rightarrow> Some (updateAlreadySeenHouses chatId allHousesLinkData s2))))"

text \<open>
  \<open>main\<close> reads the store once and walks its entries; each chat gets the entry as it was
  read then.
\<close>

fun mainLoop ::
  "World \<Rightarrow> Env \<Rightarrow> DataStore \<Rightarrow> RunState \<Rightarrow> ((error + unit) \<times> RunState) option" where
  "mainLoop w env [] s = Some (Inr (), s)"
| "mainLoop w env ((chatid, searchConfig) # rest) s =
     (case processSearchHousesByChat w env chatid searchConfig s of
        None \<Rightarrow> None
      | Some (Inl e, s') \<Rightarrow> Some (Inl e, s')
      | Some (Inr _, s') \<Rightarrow> mainLoop w env rest s')"

definition main :: "World \<Rightarrow> Env \<Rightarrow> RunState \<Rightarrow> ((error + unit) \<times> RunState) option" where
  "main w env s =
     (case readDataStore s of
        Inl e \<Rightarrow> Some (Inl e, s)
      | Inr dataStore \<Rightarrow> mainLoop w env dataStore s)"

section \<open>Notions used in the statements\<close>

text \<open>
  A well-formed raw price is made of decimal digits and thousands separators, with at least
  one digit; \<open>decimalOf\<close> is the number a string of digits denotes in positional notation.
\<close>

definition isDecimalDigit :: "char \<Rightarrow> bool" where
  "isDecimalDigit c = (48 \<le> (of_char c :: nat) \<and> (of_char c :: nat) \<le> 57)"

fun decimalOf :: "string \<Rightarrow> nat" where
  "decimalOf [] = 0"
| "decimalOf (c # cs) = (of_char c - 48) * 10 ^ length cs + decimalOf cs"

definition wellFormedPrice :: "string \<Rightarrow> bool" where
  "wellFormedPrice rawPrice =
     (list_all (\<lambda>c. isDecimalDigit c \<or> c = CHR ''.'') rawPrice \<and> list_ex isDecimalDigit rawPrice)"

text \<open>
  The integer that a raw price denotes is read off its digits alone. A JavaScript number
  holds an integer exactly when its magnitude is at most \<open>2^53 - 1\<close> (the range of
  \<open>Number.isSafeInteger\<close>); on such values \<open>parseInt\<close> and the product of two numbers are
  exact, and outside of it the program rounds to the nearest double.
\<close>

definition safeInteger :: "int \<Rightarrow> bool" where
  "safeInteger i = (- 9007199254740991 \<le> i \<and> i \<le> 9007199254740991)"

definition priceValue :: "string \<Rightarrow> int" where
  "priceValue rawPrice = int (decimalOf (filter isDecimalDigit rawPrice))"

text \<open>
  Consecutive chunks of a list: the first \<open>n\<close> elements, then the chunks of the rest.
\<close>

fun chunksOf :: "nat \<Rightarrow> 'a list \<Rightarrow> 'a list list" where
  "chunksOf n xs = (if n = 0 \<or> xs = [] then [] else take n xs # chunksOf n (drop n xs))"

declare chunksOf.simps [simp del]

text \<open>
  The seen-set after the URLs of a list of houses have been merged into it.
\<close>

definition markAll :: "(string \<rightharpoonup> bool) \<Rightarrow> HouseData list \<Rightarrow> (string \<rightharpoonup> bool)" where
  "markAll seen housesData =
     (\<lambda>u. if u \<in> (\<lambda>house. nullish (url house) []) ` set housesData then Some True else seen u)"

text \<open>
  The candidate URL of a card, whether its house page gets opened under a seen-set, and
  the houses that a list of cards yields, stated without the run state.
\<close>

definition candidateUrl :: "card \<Rightarrow> string" where
  "candidateUrl houseCard =
     (case houseCard of Found h \<Rightarrow> takeWhile (\<lambda>c. c \<noteq> CHR ''#'') h | _ \<Rightarrow> [])"

definition opensHousePage :: "(string \<rightharpoonup> bool) \<Rightarrow> card \<Rightarrow> bool" where
  "opensHousePage seen houseCard =
     (houseCard \<noteq> Throws \<and> candidateUrl houseCard \<noteq> [] \<and> \<not> isSeen seen (candidateUrl houseCard))"

definition extractOne :: "World \<Rightarrow> jsnum \<Rightarrow> (string \<rightharpoonup> bool) \<Rightarrow> card \<Rightarrow> HouseData option" where
  "extractOne w uf seen houseCard =
     (if opensHousePage seen houseCard
      then map_option (houseOfPage uf (candidateUrl houseCard)) (housePages w (candidateUrl houseCard))
      else None)"

definition extractedFrom ::
  "World \<Rightarrow> jsnum \<Rightarrow> (string \<rightharpoonup> bool) \<Rightarrow> card list \<Rightarrow> HouseData list" where
  "extractedFrom w uf seen cards = List.map_filter (extractOne w uf seen) cards"

text \<open>
  The pages that one search link makes the browser open, the houses read through it, and
  those of them that pass the budget filter.
\<close>

definition linkVisits :: "World \<Rightarrow> (string \<rightharpoonup> bool) \<Rightarrow> string \<Rightarrow> navigation list" where
  "linkVisits w seen link =
     SearchPage link #
       (case searchResults w link of None \<Rightarrow> []
        | Some cards \<Rightarrow> map (\<lambda>c. HousePage (candidateUrl c)) (filter (opensHousePage seen) cards))"

definition linkExtracted ::
  "World \<Rightarrow> jsnum \<Rightarrow> (string \<rightharpoonup> bool) \<Rightarrow> string \<Rightarrow> HouseData list" where
  "linkExtracted w uf seen link =
     (case searchResults w link of None \<Rightarrow> [] | Some cards \<Rightarrow> extractedFrom w uf seen cards)"

definition linkHouses ::
  "World \<Rightarrow> jsnum \<Rightarrow> (string \<rightharpoonup> bool) \<Rightarrow> SearchConfig \<Rightarrow> string \<Rightarrow> HouseData list" where
  "linkHouses w uf seen cfg link =
     filter (\<lambda>h. qualifies h (maxPrice cfg)) (linkExtracted w uf seen link)"

text \<open>
  Every candidate URL on every search page of a chat is flagged in its seen-set.
\<close>

definition cardSeen :: "(string \<rightharpoonup> bool) \<Rightarrow> card \<Rightarrow> bool" where
  "cardSeen seen houseCard =
     (case houseCard of
        Found rawUrl \<Rightarrow> isSeen seen (takeWhile (\<lambda>c. c \<noteq> CHR ''#'') rawUrl)
      | _ \<Rightarrow> True)"

definition allCandidatesSeen :: "World \<Rightarrow> SearchConfig \<Rightarrow> bool" where
  "allCandidatesSeen w cfg =
     list_all (\<lambda>link. case searchResults w link of
                 None \<Rightarrow> True
               | Some cards \<Rightarrow> list_all (cardSeen (alreadySeenHouses cfg)) cards)
       (searchLinks cfg)"

section \<open>Example data\<close>

text \<open>
  A small site on which the theorems below are exercised: two search pages, four house
  pages that load, one that does not, and a store for two chats.
\<close>

definition listing :: "string \<Rightarrow> string option \<Rightarrow> string option \<Rightarrow> HouseData" where
  "listing u rent fee =
     \<lparr> url = Some u, maintenanceFee = fee, areaOfTHeHouse = None, numberOfDorms = None,
       numberOfBathrooms = None, rentPrice = rent, description = None \<rparr>"

definition page :: "string \<Rightarrow> string \<Rightarrow> string option \<Rightarrow> DetailPage" where
  "page price unit feeLabel =
     \<lparr> fraction = Some price, currencySymbol = Some unit, title = None, specLabels = [],
       maintenanceLabel = feeLabel \<rparr>"

definition demoWorld :: "((string \<times> HouseData list) list \<Rightarrow> bool) \<Rightarrow> World" where
  "demoWorld ok =
     \<lparr> searchResults = (\<lambda>l.
         if l = ''s0'' then Some [Found ''h5'']
         else if l = ''s1'' then
           Some [Found ''h1#top'', Found ''h2'', Found ''h3'', Missing, Found ''h4'', Throws,
                 Found ''h5'']
         else None),
       housePages = (\<lambda>u.
         if u = ''h1'' then Some (page ''450.000'' ''$'' (Some ''Gastos comunes $ 50.000''))
         else if u = ''h2'' then Some (page ''12'' ''UF'' None)
         else if u = ''h3'' then Some (page ''700.000'' ''$'' None)
         else if u = ''h5'' then Some (page ''300.000'' ''$'' None)
         else None),
       postSucceeds = (\<lambda>log chatId dataMessage. ok log) \<rparr>"

definition demoEnv :: Env where
  "demoEnv = \<lparr> CHUNK_SIZE = Num 1, UF_VALUE = Num 38000 \<rparr>"

definition demoConfig :: "string list \<Rightarrow> (string \<rightharpoonup> bool) \<Rightarrow> SearchConfig" where
  "demoConfig links seen = \<lparr> searchLinks = links, alreadySeenHouses = seen, maxPrice = 500000 \<rparr>"

definition demoState :: "DataStore \<Rightarrow> RunState" where
  "demoState dataStore = \<lparr> dataStoreFile = Some dataStore, opened = [], posted = [] \<rparr>"

definition demoStore :: DataStore where
  "demoStore =
     [(''g1'', demoConfig [''s0''] Map.empty),
      (''g2'', demoConfig [''s1''] (Map.empty(''h9'' \<mapsto> False)))]"

section \<open>Decimal text and \<open>parseInt\<close>\<close>

lemma digitVal_dec: "isDecimalDigit c \<Longrightarrow> digitVal c = of_char c - 48"
  by (simp add: isDecimalDigit_def digitVal_def)

lemma dec_isDigitOf: "isDecimalDigit c \<Longrightarrow> isDigitOf 10 c"
  unfolding isDecimalDigit_def digitVal_def isDigitOf_def Let_def by (simp split: if_splits) arith

lemma dec_not_white: "isDecimalDigit c \<Longrightarrow> \<not> isWhite c"
  by (auto simp: isDecimalDigit_def isWhite_def)

lemma dec_not_sign: "isDecimalDigit c \<Longrightarrow> c \<noteq> CHR ''-'' \<and> c \<noteq> CHR ''+'' \<and> c \<noteq> CHR ''x'' \<and> c \<noteq> CHR ''X''"
  by (auto simp: isDecimalDigit_def)

lemma foldl_decimal:
  "list_all isDecimalDigit ds \<Longrightarrow>
   foldl (\<lambda>a c. a * 10 + digitVal c) a ds = a * 10 ^ length ds + decimalOf ds"
  by (induction ds arbitrary: a) (simp_all add: digitVal_dec algebra_simps)

lemma digitsValue_decimal: "list_all isDecimalDigit ds \<Longrightarrow> digitsValue 10 ds = decimalOf ds"
  by (simp add: digitsValue_def foldl_decimal)

lemma takeWhile_all: "list_all P xs \<Longrightarrow> takeWhile P xs = xs"
  by (induction xs) simp_all

lemma splitRadix_dec: "list_all isDecimalDigit ds \<Longrightarrow> splitRadix ds = (10, ds)"
  by (cases ds rule: splitRadix.cases) (auto dest: dec_not_sign)

lemma parseInt_digits:
  assumes "list_all isDecimalDigit ds" and "ds \<noteq> []"
  shows "parseInt ds = Num (int (decimalOf ds))"
proof -
  from assms obtain c r where ds: "ds = c # r" and c: "isDecimalDigit c"
    by (cases ds) auto
  have w: "dropWhile isWhite ds = ds" using ds c dec_not_white by simp
  have s: "splitSign ds = (1, ds)" using ds c dec_not_sign by simp
  have t: "takeWhile (isDigitOf 10) ds = ds"
    using assms(1) by (intro takeWhile_all) (auto simp: list_all_iff dec_isDigitOf)
  show ?thesis
    using assms by (simp add: parseInt_def w s splitRadix_dec t digitsValue_decimal)
qed

lemma digitChar_code: "d < 10 \<Longrightarrow> of_char (digitChar d) = 48 + d"
proof -
  assume "d < 10"
  then have "d = 0 \<or> d = 1 \<or> d = 2 \<or> d = 3 \<or> d = 4 \<or> d = 5 \<or> d = 6 \<or> d = 7
    \<or> d = 8 \<or> d = 9"
    by arith
  then show ?thesis by (auto simp: digitChar_def)
qed

lemma digitChar_decimal: "d < 10 \<Longrightarrow> isDecimalDigit (digitChar d)"
  by (simp add: isDecimalDigit_def digitChar_code)

lemma decimalOf_snoc: "decimalOf (ds @ [c]) = decimalOf ds * 10 + (of_char c - 48)"
  by (induction ds) (simp_all add: algebra_simps)

lemma showNat_digits: "list_all isDecimalDigit (showNat n) \<and> showNat n \<noteq> [] \<and> decimalOf (showNat n) = n"
proof (induction n rule: showNat.induct)
  case (1 n)
  show ?case
  proof (cases "n < 10")
    case True
    then show ?thesis
      by (subst (1 2 3) showNat.simps) (simp add: digitChar_decimal digitChar_code)
  next
    case False
    have m: "n mod 10 < 10" by simp
    from False "1.IH" have ih: "list_all isDecimalDigit (showNat (n div 10))"
      "decimalOf (showNat (n div 10)) = n div 10" by simp_all
    show ?thesis
      using False ih m
      by (subst (1 2 3) showNat.simps)
         (simp add: digitChar_decimal digitChar_code decimalOf_snoc)
  qed
qed

lemma parseInt_showNat: "parseInt (showNat n) = Num (int n)"
  using showNat_digits [of n] by (simp add: parseInt_digits)

lemma parseInt_minus:
  assumes "list_all isDecimalDigit ds" and "ds \<noteq> []"
  shows "parseInt (CHR ''-'' # ds) = Num (- int (decimalOf ds))"
proof -
  have w: "\<not> isWhite CHR ''-''" by (simp add: isWhite_def)
  have t: "takeWhile (isDigitOf 10) ds = ds"
    using assms(1) by (intro takeWhile_all) (auto simp: list_all_iff dec_isDigitOf)
  show ?thesis
    using assms by (simp add: parseInt_def w splitRadix_dec t digitsValue_decimal)
qed

lemma parseInt_toString: "parseInt (toString (Num i)) = Num i"
proof (cases "i < 0")
  case True
  then show ?thesis
    using showNat_digits [of "nat (- i)"] by (simp add: toString_def parseInt_minus)
next
  case False
  then show ?thesis by (simp add: toString_def parseInt_showNat)
qed

lemma parseInt_NaN_text: "parseInt ''NaN'' = NaN"
  by (simp add: parseInt_def isWhite_def isDigitOf_def digitVal_def)

lemma parseInt_zero_text: "parseInt ''0'' = Num 0"
  by (simp add: parseInt_def isWhite_def isDigitOf_def digitVal_def digitsValue_def)

lemma js_add_zero: "js_add (Num 0) x = x"
  by (cases x) simp_all

lemma stripDots_digits:
  "list_all (\<lambda>c. isDecimalDigit c \<or> c = CHR ''.'') raw \<Longrightarrow> list_all isDecimalDigit (stripDots raw)"
  unfolding stripDots_def by (induction raw) auto

lemma stripDots_nonempty: "list_ex isDecimalDigit raw \<Longrightarrow> stripDots raw \<noteq> []"
  unfolding stripDots_def by (induction raw) (auto simp: isDecimalDigit_def)

lemma stripDots_wf:
  "wellFormedPrice raw \<Longrightarrow> list_all isDecimalDigit (stripDots raw) \<and> stripDots raw \<noteq> []"
  by (simp add: wellFormedPrice_def stripDots_digits stripDots_nonempty)

lemma wellFormed_nonempty: "wellFormedPrice p \<Longrightarrow> p \<noteq> []"
  by (auto simp: wellFormedPrice_def)

lemma convertIntoClp_digits:
  assumes "wellFormedPrice rawPrice"
  shows "convertIntoClp (Num rate) rawPrice unitPrice =
           Num (if unitPrice = ''UF'' then int (decimalOf (stripDots rawPrice)) * rate
                else int (decimalOf (stripDots rawPrice)))"
  using stripDots_wf [OF assms] by (simp add: convertIntoClp_def parseInt_digits)

lemma wellFormed_2500: "wellFormedPrice ''2.500''"
  by (simp add: wellFormedPrice_def isDecimalDigit_def)

lemma convertIntoClp_NaN:
  "parseInt (stripDots rawPrice) = NaN \<Longrightarrow> convertIntoClp uf rawPrice unitPrice = NaN"
  by (simp add: convertIntoClp_def Let_def)

lemma dot_not_digit: "\<not> isDecimalDigit CHR ''.''"
  by (simp add: isDecimalDigit_def)

lemma digits_of_wellFormed:
  "list_all (\<lambda>c. isDecimalDigit c \<or> c = CHR ''.'') raw \<Longrightarrow> filter isDecimalDigit raw = stripDots raw"
  unfolding stripDots_def by (induction raw) (auto simp: dot_not_digit)

lemma priceValue_wellFormed:
  "wellFormedPrice raw \<Longrightarrow> priceValue raw = int (decimalOf (stripDots raw))"
  by (simp add: priceValue_def wellFormedPrice_def digits_of_wellFormed)

lemma convertIntoClp_value:
  assumes "wellFormedPrice rawPrice"
  shows "convertIntoClp (Num rate) rawPrice unitPrice =
           Num (if unitPrice = ''UF'' then priceValue rawPrice * rate else priceValue rawPrice)"
  by (simp add: convertIntoClp_digits [OF assms] priceValue_wellFormed [OF assms])

section \<open>The loop of \<open>chunkArray\<close>\<close>

lemma slice_step:
  assumes "0 \<le> i" "i < int (length xs)" "0 < n"
  shows "slice xs (Num i) (Num (i + n)) = take (nat n) (drop (nat i) xs)"
proof -
  have k: "clampIndex (int (length xs)) i = nat i"
    using assms by (simp add: clampIndex_def min_def)
  show ?thesis
  proof (cases "i + n \<le> int (length xs)")
    case True
    then have "clampIndex (int (length xs)) (i + n) = nat i + nat n"
      using assms by (simp add: clampIndex_def min_def nat_add_distrib)
    then show ?thesis by (simp add: slice_def Let_def k)
  next
    case False
    then have f: "clampIndex (int (length xs)) (i + n) = length xs"
      using assms by (simp add: clampIndex_def min_def)
    have "length (drop (nat i) xs) \<le> nat n" using False assms by simp
    then show ?thesis by (simp add: slice_def Let_def k f)
  qed
qed

lemma chunksOf_step:
  "0 < n \<Longrightarrow> ys \<noteq> [] \<Longrightarrow> chunksOf n ys = take n ys # chunksOf n (drop n ys)"
  by (subst chunksOf.simps) simp

lemma chunkLoop_positive:
  assumes "0 < n" "0 \<le> i"
  shows "chunkLoop xs (Num n) (Num i) acc = Some (acc @ chunksOf (nat n) (drop (nat i) xs))"
  using assms(2)
proof (induction "length xs - nat i" arbitrary: i acc rule: less_induct)
  case less
  show ?case
  proof (cases "i < int (length xs)")
    case True
    let ?j = "i + n"
    have m: "length xs - nat ?j < length xs - nat i" using True less.prems assms(1) by linarith
    have j: "0 \<le> ?j" using less.prems assms(1) by simp
    have d: "drop (nat i) xs \<noteq> []" using True less.prems by simp
    have dd: "drop (nat ?j) xs = drop (nat n) (drop (nat i) xs)"
      using less.prems assms(1) by (simp add: nat_add_distrib add.commute)
    have "chunkLoop xs (Num n) (Num i) acc
          = chunkLoop xs (Num n) (Num ?j) (acc @ [slice xs (Num i) (Num ?j)])"
      using True by (subst chunkLoop.simps) simp
    also have "\<dots> = Some ((acc @ [slice xs (Num i) (Num ?j)]) @ chunksOf (nat n) (drop (nat ?j) xs))"
      by (rule less.hyps [OF m j])
    also have "\<dots> = Some (acc @ chunksOf (nat n) (drop (nat i) xs))"
      using assms(1) True less.prems
      by (simp add: chunksOf_step [OF _ d] slice_step dd)
    finally show ?thesis .
  next
    case False
    then have "drop (nat i) xs = []" using less.prems by simp
    then show ?thesis using False
      by (subst chunkLoop.simps) (simp add: chunksOf.simps)
  qed
qed

lemma chunkArray_positive: "0 < n \<Longrightarrow> chunkArray xs (Num n) = Some (chunksOf (nat n) xs)"
  using chunkLoop_positive [of n 0 xs "[]"] by (simp add: chunkArray_def)

lemma chunkLoop_zero_stuck:
  assumes "chunkLoop xs sz i acc = Some r"
  shows "sz = Num 0 \<longrightarrow> \<not> js_lt i (Num (int (length xs)))"
proof (rule chunkLoop.raw_induct
    [where P = "\<lambda>array chunkSize i acc r. chunkSize = Num 0 \<longrightarrow> \<not> js_lt i (Num (int (length array)))",
     OF _ assms])
  fix f :: "'a list \<Rightarrow> jsnum \<Rightarrow> jsnum \<Rightarrow> 'a list list \<Rightarrow> 'a list list option"
  fix array chunkSize i chunkedArray r
  assume IH: "\<And>array chunkSize i chunkedArray r. f array chunkSize i chunkedArray = Some r \<Longrightarrow>
                chunkSize = Num 0 \<longrightarrow> \<not> js_lt i (Num (int (length array)))"
    and step: "(if js_lt i (Num (int (length array)))
                then f array chunkSize (js_add i chunkSize)
                       (chunkedArray @ [slice array i (js_add i chunkSize)])
                else Some chunkedArray) = Some r"
  show "chunkSize = Num 0 \<longrightarrow> \<not> js_lt i (Num (int (length array)))"
  proof (intro impI notI)
    assume z: "chunkSize = Num 0" and lt: "js_lt i (Num (int (length array)))"
    then obtain k where k: "i = Num k" by (cases i) auto
    from step lt have "f array chunkSize (js_add i chunkSize)
            (chunkedArray @ [slice array i (js_add i chunkSize)]) = Some r"
      by simp
    from IH [OF this] z lt k show False by simp
  qed
qed

lemma chunkArray_zero_nonempty: "xs \<noteq> [] \<Longrightarrow> chunkArray xs (Num 0) = None"
proof (rule ccontr)
  assume ne: "xs \<noteq> []" and "chunkArray xs (Num 0) \<noteq> None"
  then obtain r where "chunkLoop xs (Num 0) (Num 0) [] = Some r"
    by (auto simp: chunkArray_def)
  from chunkLoop_zero_stuck [OF this] ne show False by simp
qed

lemma chunkArray_empty: "chunkArray [] n = Some []"
  unfolding chunkArray_def by (subst chunkLoop.simps) simp

lemma concat_chunksOf: "0 < n \<Longrightarrow> concat (chunksOf n xs) = xs"
proof (induction n xs rule: chunksOf.induct)
  case (1 n xs)
  then show ?case by (subst chunksOf.simps) simp
qed

lemma chunksOf_lengths:
  "0 < n \<Longrightarrow> c \<in> set (chunksOf n xs) \<Longrightarrow> c \<noteq> [] \<and> length c \<le> n"
proof (induction n xs rule: chunksOf.induct)
  case (1 n xs)
  show ?case
  proof (cases "xs = []")
    case True
    with "1.prems" show ?thesis by (simp add: chunksOf.simps)
  next
    case False
    then have "chunksOf n xs = take n xs # chunksOf n (drop n xs)"
      using "1.prems"(1) by (subst chunksOf.simps) simp
    with "1.prems" consider "c = take n xs" | "c \<in> set (chunksOf n (drop n xs))" by auto
    then show ?thesis
    proof cases
      case 1
      then show ?thesis using False "1.prems"(1) by simp
    next
      case 2
      then show ?thesis using "1.IH" False "1.prems"(1) by simp
    qed
  qed
qed

lemma chunksOf_butlast:
  "0 < n \<Longrightarrow> c \<in> set (butlast (chunksOf n xs)) \<Longrightarrow> length c = n"
proof (induction n xs rule: chunksOf.induct)
  case (1 n xs)
  show ?case
  proof (cases "xs = []")
    case True
    with "1.prems" show ?thesis by (simp add: chunksOf.simps)
  next
    case False
    note ne = this
    have step: "chunksOf n xs = take n xs # chunksOf n (drop n xs)"
      using ne "1.prems"(1) by (subst chunksOf.simps) simp
    show ?thesis
    proof (cases "chunksOf n (drop n xs) = []")
      case True
      with "1.prems" step show ?thesis by simp
    next
      case False
      then have "drop n xs \<noteq> []" by (auto simp: chunksOf.simps)
      then have "length (take n xs) = n" by simp
      with "1.prems" step False "1.IH" ne show ?thesis by auto
    qed
  qed
qed

lemma chunksOf_one: "chunksOf (Suc 0) xs = map (\<lambda>x. [x]) xs"
proof (induction xs)
  case Nil
  show ?case by (simp add: chunksOf.simps)
next
  case (Cons x xs)
  then show ?case by (subst chunksOf.simps) simp
qed

lemma chunkArray_one: "chunkArray xs (Num 1) = Some (map (\<lambda>x. [x]) xs)"
  by (simp add: chunkArray_positive chunksOf_one)

section \<open>The update of the data store\<close>

lemma markAll_Nil: "markAll seen [] = seen"
  by (simp add: markAll_def)

lemma markLoop_Some:
  "markLoop (Some c) hs = Inr (Some (c\<lparr>alreadySeenHouses := markAll (alreadySeenHouses c) hs\<rparr>))"
proof (induction hs arbitrary: c)
  case Nil
  show ?case by (simp add: markAll_Nil)
next
  case (Cons h hs)
  have "markAll (\<lambda>a. if a = nullish (url h) [] then Some True else alreadySeenHouses c a) hs
        = markAll (alreadySeenHouses c) (h # hs)"
    by (auto simp: markAll_def fun_eq_iff)
  then show ?case by (simp add: Cons.IH)
qed

lemma markLoop_None: "markLoop None hs = (if hs = [] then Inr None else Inl TypeError)"
  by (cases hs) simp_all

lemma map_fst_setEntry: "map fst (setEntry k c store) = map fst store"
  by (induction store) auto

lemma map_of_setEntry:
  "map_of (setEntry k c store) g =
     (if g = k then (case map_of store k of None \<Rightarrow> None | Some _ \<Rightarrow> Some c) else map_of store g)"
  by (induction store) auto

lemma setEntry_same: "map_of store k = Some c \<Longrightarrow> setEntry k c store = store"
  by (induction store) auto

lemma isSeen_markAll:
  "isSeen (markAll seen hs) u \<longleftrightarrow> isSeen seen u \<or> u \<in> (\<lambda>h. nullish (url h) []) ` set hs"
  by (auto simp: isSeen_def markAll_def)

lemma updateAlreadySeenHouses_cases:
  assumes "dataStoreFile s = Some store"
  shows "updateAlreadySeenHouses chatId hs s =
     (case map_of store chatId of
        None \<Rightarrow> if hs = [] then (Inr (), s) else (Inl TypeError, s)
      | Some c \<Rightarrow> (Inr (), s\<lparr>dataStoreFile :=
           Some (setEntry chatId (c\<lparr>alreadySeenHouses := markAll (alreadySeenHouses c) hs\<rparr>) store)\<rparr>))"
  using assms
  by (cases "map_of store chatId")
     (simp_all add: updateAlreadySeenHouses_def readDataStore_def markLoop_Some markLoop_None)

lemma updateAlreadySeenHouses_no_file:
  "dataStoreFile s = None \<Longrightarrow> updateAlreadySeenHouses chatId hs s = (Inl StoreError, s)"
  by (simp add: updateAlreadySeenHouses_def readDataStore_def)

lemma updateAlreadySeenHouses_Nil:
  "updateAlreadySeenHouses chatId [] s =
     (if dataStoreFile s = None then Inl StoreError else Inr (), s)"
proof (cases "dataStoreFile s")
  case None
  then show ?thesis by (simp add: updateAlreadySeenHouses_no_file)
next
  case (Some store)
  show ?thesis
  proof (cases "map_of store chatId")
    case None
    with Some show ?thesis by (simp add: updateAlreadySeenHouses_cases)
  next
    case (Some c)
    have "c\<lparr>alreadySeenHouses := markAll (alreadySeenHouses c) []\<rparr> = c"
      by (simp add: markAll_Nil)
    moreover have "s\<lparr>dataStoreFile := Some store\<rparr> = s"
      using \<open>dataStoreFile s = Some store\<close> by simp
    ultimately show ?thesis
      using Some \<open>dataStoreFile s = Some store\<close>
      by (simp add: updateAlreadySeenHouses_cases setEntry_same)
  qed
qed

lemma updateAlreadySeenHouses_frame:
  "updateAlreadySeenHouses chatId hs s = (r, s') \<Longrightarrow> opened s' = opened s \<and> posted s' = posted s"
  by (auto simp: updateAlreadySeenHouses_def split: sum.splits option.splits)

lemma updateAlreadySeenHouses_others:
  assumes "updateAlreadySeenHouses chatId hs s = (r, s')" and "dataStoreFile s = Some st"
  shows "\<exists>st'. dataStoreFile s' = Some st' \<and> (\<forall>g. g \<noteq> chatId \<longrightarrow> map_of st' g = map_of st g)"
proof (cases "map_of st chatId")
  case None
  with assms have "s' = s"
    by (auto simp: updateAlreadySeenHouses_cases split: if_splits)
  with assms(2) show ?thesis by simp
next
  case (Some c)
  with assms show ?thesis
    by (auto simp: updateAlreadySeenHouses_cases map_of_setEntry)
qed

section \<open>Reading the pages\<close>

lemma linkHouses_cases:
  "linkHouses w uf seen cfg link =
     (case searchResults w link of None \<Rightarrow> []
      | Some cards \<Rightarrow> filter (\<lambda>h. qualifies h (maxPrice cfg)) (extractedFrom w uf seen cards))"
  by (simp add: linkHouses_def linkExtracted_def split: option.splits)

lemma retrieveHouseCardInfo_eq:
  "retrieveHouseCardInfo w uf c seen s =
     (if opensHousePage seen c
      then (extractOne w uf seen c, s\<lparr>opened := opened s @ [HousePage (candidateUrl c)]\<rparr>)
      else (None, s))"
  by (cases c)
     (auto simp: retrieveHouseCardInfo_def opensHousePage_def candidateUrl_def extractOne_def
           Let_def split: option.splits)

lemma extractedFrom_Nil: "extractedFrom w uf seen [] = []"
  by (simp add: extractedFrom_def)

lemma extractedFrom_Cons:
  "extractedFrom w uf seen (c # cs) =
     (case extractOne w uf seen c of None \<Rightarrow> extractedFrom w uf seen cs
      | Some h \<Rightarrow> h # extractedFrom w uf seen cs)"
  unfolding extractedFrom_def by simp

lemma extractOne_closed: "\<not> opensHousePage seen c \<Longrightarrow> extractOne w uf seen c = None"
  by (simp add: extractOne_def)

lemma extractOne_Some:
  "extractOne w uf seen c = Some h \<longleftrightarrow>
     opensHousePage seen c \<and>
     (\<exists>pg. housePages w (candidateUrl c) = Some pg \<and> h = houseOfPage uf (candidateUrl c) pg)"
  by (auto simp: extractOne_def)

lemma extractedFrom_set:
  "set (extractedFrom w uf seen cards) = {h. \<exists>c \<in> set cards. extractOne w uf seen c = Some h}"
  by (induction cards)
     (auto simp: extractedFrom_Nil extractedFrom_Cons split: option.splits)

lemma extractedFrom_closed:
  "\<forall>c \<in> set cards. \<not> opensHousePage seen c \<Longrightarrow> extractedFrom w uf seen cards = []"
  by (induction cards) (simp_all add: extractedFrom_Nil extractedFrom_Cons extractOne_closed)

lemma cardLoop_eq:
  "cardLoop w uf cs seen acc s =
     (acc @ extractedFrom w uf seen cs,
      s\<lparr>opened := opened s @ map (\<lambda>c. HousePage (candidateUrl c)) (filter (opensHousePage seen) cs)\<rparr>)"
proof (induction cs arbitrary: acc s)
  case Nil
  show ?case by (simp add: extractedFrom_Nil)
next
  case (Cons c cs)
  show ?case
  proof (cases "opensHousePage seen c")
    case True
    then show ?thesis
      by (cases "extractOne w uf seen c")
         (simp_all add: retrieveHouseCardInfo_eq Cons.IH extractedFrom_Cons)
  next
    case False
    then show ?thesis
      by (simp add: retrieveHouseCardInfo_eq Cons.IH extractedFrom_Cons extractOne_closed)
  qed
qed

lemma retrieveHousesDataFromFilterLink_eq:
  "retrieveHousesDataFromFilterLink w uf link seen cfg s =
     ((case searchResults w link of None \<Rightarrow> Inl NavigationError
       | Some cards \<Rightarrow> Inr (filter (\<lambda>h. qualifies h (maxPrice cfg)) (extractedFrom w uf seen cards))),
      s\<lparr>opened := opened s @ linkVisits w seen link\<rparr>)"
  by (simp add: retrieveHousesDataFromFilterLink_def linkVisits_def cardLoop_eq Let_def
           split: option.splits)

lemma url_houseOfPage: "url (houseOfPage uf u pg) = Some u"
  by (simp add: houseOfPage_def Let_def split: prod.splits)

lemma rentPrice_houseOfPage:
  "rentPrice (houseOfPage uf u pg) =
     (if truthyOrNull (fraction pg) = None then None
      else Some (toString (convertIntoClp uf (nullish (fraction pg) ''0'')
                   (nullish (currencySymbol pg) []))))"
  by (simp add: houseOfPage_def Let_def split: prod.splits)

lemma rent_amount_normalised:
  assumes "fraction pg = Some p" and "wellFormedPrice p"
  shows "parseInt (nullish (rentPrice (houseOfPage (Num rate) u pg)) ''0'')
           = convertIntoClp (Num rate) p (nullish (currencySymbol pg) [])"
  using assms wellFormed_nonempty [OF assms(2)]
  by (simp add: rentPrice_houseOfPage convertIntoClp_digits parseInt_toString)

lemma matchMaintenanceFee_nonempty: "matchMaintenanceFee t = Some ds \<Longrightarrow> ds \<noteq> []"
  by (induction t) (auto split: if_splits)

lemma maintenanceFee_houseOfPage:
  "maintenanceFee (houseOfPage uf u pg) = matchMaintenanceFee (nullish (maintenanceLabel pg) [])"
  by (simp add: houseOfPage_def retrieveSpecs_def Let_def)

lemma linkExtracted_house:
  assumes "h \<in> set (linkExtracted w uf seen link)"
  obtains cards c pg where "searchResults w link = Some cards" "c \<in> set cards"
    "opensHousePage seen c" "housePages w (candidateUrl c) = Some pg"
    "h = houseOfPage uf (candidateUrl c) pg"
proof (cases "searchResults w link")
  case None
  with assms show ?thesis by (simp add: linkExtracted_def)
next
  case (Some cards)
  with assms have "h \<in> set (extractedFrom w uf seen cards)" by (simp add: linkExtracted_def)
  then obtain c where "c \<in> set cards" "extractOne w uf seen c = Some h"
    by (auto simp: extractedFrom_set)
  with Some that show ?thesis by (auto simp: extractOne_Some)
qed

lemma linkVisits_not_seen: "HousePage u \<in> set (linkVisits w seen l) \<Longrightarrow> \<not> isSeen seen u"
  by (auto simp: linkVisits_def opensHousePage_def split: option.splits)

lemma seen_card_closed:
  assumes "cardSeen seen c"
  shows "\<not> opensHousePage seen c"
proof (cases c)
  case Throws
  then show ?thesis by (simp add: opensHousePage_def)
next
  case Missing
  then show ?thesis by (simp add: opensHousePage_def candidateUrl_def)
next
  case (Found rawUrl)
  with assms have "isSeen seen (takeWhile (\<lambda>c. c \<noteq> CHR ''#'') rawUrl)"
    by (simp add: cardSeen_def)
  with Found show ?thesis by (simp add: opensHousePage_def candidateUrl_def)
qed

lemma allSeen_link:
  assumes "allCandidatesSeen w cfg" and "l \<in> set (searchLinks cfg)"
  shows "linkHouses w uf (alreadySeenHouses cfg) cfg l = []"
    and "linkVisits w (alreadySeenHouses cfg) l = [SearchPage l]"
proof -
  have closed: "\<forall>c \<in> set cards. \<not> opensHousePage (alreadySeenHouses cfg) c"
    if "searchResults w l = Some cards" for cards
  proof
    fix c assume c: "c \<in> set cards"
    from assms that c
    have "cardSeen (alreadySeenHouses cfg) c"
      unfolding allCandidatesSeen_def list_all_iff by fastforce
    then show "\<not> opensHousePage (alreadySeenHouses cfg) c" by (rule seen_card_closed)
  qed
  show "linkHouses w uf (alreadySeenHouses cfg) cfg l = []"
    by (cases "searchResults w l") (simp_all add: linkHouses_cases extractedFrom_closed closed)
  have "filter (opensHousePage (alreadySeenHouses cfg)) cards = []"
    if "searchResults w l = Some cards" for cards
    using closed [OF that] by (simp add: filter_empty_conv)
  then show "linkVisits w (alreadySeenHouses cfg) l = [SearchPage l]"
    by (cases "searchResults w l") (simp_all add: linkVisits_def)
qed

section \<open>The loops of a run\<close>

lemma linkLoop_result:
  assumes "linkLoop w uf links seen cfg acc s = (r, s')"
  shows "(\<exists>new. s' = s\<lparr>opened := opened s @ new\<rparr>
            \<and> set new \<subseteq> (\<Union>l \<in> set links. set (linkVisits w seen l)))
         \<and> (case r of
               Inl e \<Rightarrow> e = NavigationError \<and> (\<exists>l \<in> set links. searchResults w l = None)
             | Inr allHouses \<Rightarrow>
                 allHouses = acc @ concat (map (linkHouses w uf seen cfg) links)
                 \<and> (\<forall>l \<in> set links. searchResults w l \<noteq> None))"
  using assms
proof (induction links arbitrary: acc s)
  case Nil
  then show ?case by auto
next
  case (Cons l ls)
  show ?case
  proof (cases "searchResults w l")
    case None
    with Cons.prems show ?thesis
      by (auto simp: retrieveHousesDataFromFilterLink_eq)
  next
    case (Some cards)
    let ?s1 = "s\<lparr>opened := opened s @ linkVisits w seen l\<rparr>"
    let ?acc1 = "acc @ linkHouses w uf seen cfg l"
    from Cons.prems Some have rec: "linkLoop w uf ls seen cfg ?acc1 ?s1 = (r, s')"
      by (simp add: retrieveHousesDataFromFilterLink_eq linkHouses_cases)
    from Cons.IH [OF rec] obtain new where
      new: "s' = ?s1\<lparr>opened := opened ?s1 @ new\<rparr>"
        "set new \<subseteq> (\<Union>l \<in> set ls. set (linkVisits w seen l))"
      and res: "case r of
               Inl e \<Rightarrow> e = NavigationError \<and> (\<exists>l \<in> set ls. searchResults w l = None)
             | Inr allHouses \<Rightarrow>
                 allHouses = ?acc1 @ concat (map (linkHouses w uf seen cfg) ls)
                 \<and> (\<forall>l \<in> set ls. searchResults w l \<noteq> None)"
      by blast
    have "s' = s\<lparr>opened := opened s @ (linkVisits w seen l @ new)\<rparr>"
      using new(1) by simp
    moreover have "set (linkVisits w seen l @ new) \<subseteq> (\<Union>l \<in> set (l # ls). set (linkVisits w seen l))"
      using new(2) by auto
    ultimately have frame: "\<exists>new. s' = s\<lparr>opened := opened s @ new\<rparr>
            \<and> set new \<subseteq> (\<Union>l \<in> set (l # ls). set (linkVisits w seen l))"
      by blast
    from res Some have "case r of
               Inl e \<Rightarrow> e = NavigationError \<and> (\<exists>l \<in> set (l # ls). searchResults w l = None)
             | Inr allHouses \<Rightarrow>
                 allHouses = acc @ concat (map (linkHouses w uf seen cfg) (l # ls))
                 \<and> (\<forall>l \<in> set (l # ls). searchResults w l \<noteq> None)"
      by (cases r) auto
    with frame show ?thesis by blast
  qed
qed

lemma linkLoop_all_load:
  assumes "\<forall>l \<in> set links. searchResults w l \<noteq> None"
  shows "linkLoop w uf links seen cfg acc s =
           (Inr (acc @ concat (map (linkHouses w uf seen cfg) links)),
            s\<lparr>opened := opened s @ concat (map (linkVisits w seen) links)\<rparr>)"
  using assms
proof (induction links arbitrary: acc s)
  case Nil
  show ?case by simp
next
  case (Cons l ls)
  then obtain cards where c: "searchResults w l = Some cards" by auto
  from Cons.prems have rest: "\<forall>l \<in> set ls. searchResults w l \<noteq> None" by simp
  show ?case
    by (simp add: retrieveHousesDataFromFilterLink_eq c Cons.IH [OF rest] linkHouses_cases)
qed

lemma linkLoop_opened:
  assumes "linkLoop w uf links seen cfg acc s = (r, s')"
  shows "\<exists>new. s' = s\<lparr>opened := opened s @ new\<rparr> \<and> (\<forall>u. HousePage u \<in> set new \<longrightarrow> \<not> isSeen seen u)"
proof -
  from linkLoop_result [OF assms] obtain new where
    "s' = s\<lparr>opened := opened s @ new\<rparr>"
    "set new \<subseteq> (\<Union>l \<in> set links. set (linkVisits w seen l))"
    by blast
  then show ?thesis using linkVisits_not_seen by blast
qed

lemma linkLoop_keeps:
  assumes "linkLoop w uf links seen cfg acc s = (r, s')"
  shows "dataStoreFile s' = dataStoreFile s" and "posted s' = posted s"
  using linkLoop_result [OF assms] by auto

lemma sendMessageToTelegram_frame:
  "sendMessageToTelegram w chatId m s = (r, s') \<Longrightarrow>
     \<exists>new. s' = s\<lparr>posted := posted s @ new\<rparr> \<and> set new \<subseteq> {(chatId, m)}"
proof (cases "m = []")
  case True
  assume "sendMessageToTelegram w chatId m s = (r, s')"
  with True have "s' = s\<lparr>posted := posted s @ []\<rparr>"
    by (simp add: sendMessageToTelegram_def)
  then show ?thesis by (intro exI [of _ "[]"]) simp
next
  case False
  assume "sendMessageToTelegram w chatId m s = (r, s')"
  with False have "s' = s\<lparr>posted := posted s @ [(chatId, m)]\<rparr>"
    by (auto simp: sendMessageToTelegram_def Let_def split: if_splits)
  then show ?thesis by (intro exI [of _ "[(chatId, m)]"]) simp
qed

lemma sendLoop_frame:
  "sendLoop w chatId chunks s = (r, s') \<Longrightarrow> \<exists>new. s' = s\<lparr>posted := posted s @ new\<rparr>"
proof (induction chunks arbitrary: s)
  case Nil
  then have "s' = s\<lparr>posted := posted s @ []\<rparr>" by simp
  then show ?case by blast
next
  case (Cons c cs)
  obtain r1 s1 where one: "sendMessageToTelegram w chatId c s = (r1, s1)" by fastforce
  from sendMessageToTelegram_frame [OF one] obtain n1 where
    s1: "s1 = s\<lparr>posted := posted s @ n1\<rparr>" by blast
  show ?case
  proof (cases r1)
    case (Inl e)
    with Cons.prems one have "s' = s1" by simp
    with s1 show ?thesis by blast
  next
    case (Inr u)
    with Cons.prems one have "sendLoop w chatId cs s1 = (r, s')" by simp
    from Cons.IH [OF this] obtain n2 where "s' = s1\<lparr>posted := posted s1 @ n2\<rparr>" by blast
    with s1 have "s' = s\<lparr>posted := posted s @ (n1 @ n2)\<rparr>" by simp
    then show ?thesis by blast
  qed
qed

lemma sendLoop_keeps:
  assumes "sendLoop w chatId chunks s = (r, s')"
  shows "dataStoreFile s' = dataStoreFile s" and "opened s' = opened s"
  using sendLoop_frame [OF assms] by auto

lemma sendLoop_append:
  "sendLoop w chatId (xs @ ys) s =
     (case sendLoop w chatId xs s of
        (Inl e, s') \<Rightarrow> (Inl e, s')
      | (Inr u, s') \<Rightarrow> sendLoop w chatId ys s')"
  by (induction xs arbitrary: s) (auto split: prod.splits sum.splits)

lemma sendLoop_all_succeed:
  assumes "\<And>log m. postSucceeds w log chatId m" and "[] \<notin> set chunks"
  shows "sendLoop w chatId chunks s = (Inr (), s\<lparr>posted := posted s @ map (Pair chatId) chunks\<rparr>)"
  using assms(2)
proof (induction chunks arbitrary: s)
  case Nil
  show ?case by simp
next
  case (Cons c cs)
  then have "c \<noteq> []" and "[] \<notin> set cs" by auto
  then show ?case
    by (simp add: sendMessageToTelegram_def assms(1) Cons.IH)
qed

lemma sendLoop_fails_at:
  assumes "sendLoop w chatId sentOk s = (Inr (), s')"
    and "failing \<noteq> []" and "\<not> postSucceeds w (posted s') chatId failing"
  shows "sendLoop w chatId (sentOk @ failing # later) s =
           (Inl DeliveryError, s'\<lparr>posted := posted s' @ [(chatId, failing)]\<rparr>)"
  using assms by (simp add: sendLoop_append sendMessageToTelegram_def)

lemma mainLoop_append:
  "mainLoop w env (xs @ ys) s =
     (case mainLoop w env xs s of
        None \<Rightarrow> None
      | Some (Inl e, s') \<Rightarrow> Some (Inl e, s')
      | Some (Inr u, s') \<Rightarrow> mainLoop w env ys s')"
  by (induction xs arbitrary: s) (auto split: prod.splits sum.splits option.splits)

lemma process_opened:
  assumes "processSearchHousesByChat w env chatId cfg s = Some (r, s')"
  shows "\<exists>new. opened s' = opened s @ new
           \<and> (\<forall>u. HousePage u \<in> set new \<longrightarrow> \<not> isSeen (alreadySeenHouses cfg) u)"
proof -
  obtain r1 s1 where ll:
    "linkLoop w (UF_VALUE env) (searchLinks cfg) (alreadySeenHouses cfg) cfg [] s = (r1, s1)"
    by fastforce
  from linkLoop_opened [OF ll] obtain new where
    new: "s1 = s\<lparr>opened := opened s @ new\<rparr>"
      "\<forall>u. HousePage u \<in> set new \<longrightarrow> \<not> isSeen (alreadySeenHouses cfg) u"
    by blast
  have "opened s' = opened s1"
  proof (cases r1)
    case (Inl e)
    with assms ll show ?thesis by (simp add: processSearchHousesByChat_def)
  next
    case (Inr hs)
    with assms ll obtain chunks where
      ch: "chunkArray hs (CHUNK_SIZE env) = Some chunks"
      by (cases "chunkArray hs (CHUNK_SIZE env)") (auto simp: processSearchHousesByChat_def)
    obtain r2 s2 where sl: "sendLoop w chatId chunks s1 = (r2, s2)" by fastforce
    from sendLoop_frame [OF sl] have o2: "opened s2 = opened s1" by auto
    show ?thesis
    proof (cases r2)
      case (Inl e)
      with assms ll Inr ch sl have "s' = s2" by (simp add: processSearchHousesByChat_def)
      with o2 show ?thesis by simp
    next
      case (Inr u)
      with assms ll \<open>r1 = Inr hs\<close> ch sl
      have "updateAlreadySeenHouses chatId hs s2 = (r, s')"
        by (simp add: processSearchHousesByChat_def)
      from updateAlreadySeenHouses_frame [OF this] o2 show ?thesis by simp
    qed
  qed
  with new show ?thesis by auto
qed

lemma process_all_load:
  assumes "\<forall>l \<in> set (searchLinks cfg). searchResults w l \<noteq> None"
    and "chunkArray (concat (map (linkHouses w (UF_VALUE env) (alreadySeenHouses cfg) cfg)
           (searchLinks cfg))) (CHUNK_SIZE env) = Some chunks"
  shows "processSearchHousesByChat w env chatId cfg s =
     (case sendLoop w chatId chunks
             (s\<lparr>opened := opened s @
                 concat (map (linkVisits w (alreadySeenHouses cfg)) (searchLinks cfg))\<rparr>) of
        (Inl e, s2) \<Rightarrow> Some (Inl e, s2)
      | (Inr u, s2) \<Rightarrow>
          Some (updateAlreadySeenHouses chatId
                  (concat (map (linkHouses w (UF_VALUE env) (alreadySeenHouses cfg) cfg)
                     (searchLinks cfg))) s2))"
  unfolding processSearchHousesByChat_def Let_def
  by (simp add: linkLoop_all_load [OF assms(1)] assms(2))

lemma process_Inr:
  assumes "processSearchHousesByChat w env chatId cfg s = Some (Inr (), s')"
  shows "\<exists>s2. updateAlreadySeenHouses chatId
            (concat (map (linkHouses w (UF_VALUE env) (alreadySeenHouses cfg) cfg) (searchLinks cfg))) s2
              = (Inr (), s')
          \<and> dataStoreFile s2 = dataStoreFile s"
proof -
  let ?hs = "concat (map (linkHouses w (UF_VALUE env) (alreadySeenHouses cfg) cfg) (searchLinks cfg))"
  obtain r1 s1 where ll:
    "linkLoop w (UF_VALUE env) (searchLinks cfg) (alreadySeenHouses cfg) cfg [] s = (r1, s1)"
    by fastforce
  from linkLoop_result [OF ll] obtain new where s1: "s1 = s\<lparr>opened := opened s @ new\<rparr>"
    and res: "case r1 of
               Inl e \<Rightarrow> e = NavigationError \<and> (\<exists>l \<in> set (searchLinks cfg). searchResults w l = None)
             | Inr allHouses \<Rightarrow> allHouses = [] @ ?hs
                 \<and> (\<forall>l \<in> set (searchLinks cfg). searchResults w l \<noteq> None)"
    by blast
  from assms ll obtain hs where r1: "r1 = Inr hs"
    by (cases r1) (auto simp: processSearchHousesByChat_def)
  with res have hs: "hs = ?hs" by simp
  from assms ll r1 obtain chunks where ch: "chunkArray hs (CHUNK_SIZE env) = Some chunks"
    by (cases "chunkArray hs (CHUNK_SIZE env)") (auto simp: processSearchHousesByChat_def)
  obtain r2 s2 where sl: "sendLoop w chatId chunks s1 = (r2, s2)" by fastforce
  from assms ll r1 ch sl have r2: "r2 = Inr ()"
    by (cases r2) (auto simp: processSearchHousesByChat_def)
  from assms ll r1 ch sl r2 have "updateAlreadySeenHouses chatId hs s2 = (Inr (), s')"
    by (simp add: processSearchHousesByChat_def)
  moreover from sendLoop_frame [OF sl] s1 have "dataStoreFile s2 = dataStoreFile s" by auto
  ultimately show ?thesis using hs by blast
qed

lemma process_others:
  assumes "processSearchHousesByChat w env chatId cfg s = Some (r, s')"
    and "dataStoreFile s = Some st"
  shows "\<exists>st'. dataStoreFile s' = Some st' \<and> (\<forall>g. g \<noteq> chatId \<longrightarrow> map_of st' g = map_of st g)"
proof -
  obtain r1 s1 where ll:
    "linkLoop w (UF_VALUE env) (searchLinks cfg) (alreadySeenHouses cfg) cfg [] s = (r1, s1)"
    by fastforce
  have f1: "dataStoreFile s1 = Some st" using linkLoop_keeps(1) [OF ll] assms(2) by simp
  show ?thesis
  proof (cases r1)
    case (Inl e)
    with assms(1) ll have "s' = s1" by (simp add: processSearchHousesByChat_def)
    with f1 show ?thesis by simp
  next
    case (Inr hs)
    with assms(1) ll obtain chunks where ch: "chunkArray hs (CHUNK_SIZE env) = Some chunks"
      by (cases "chunkArray hs (CHUNK_SIZE env)") (auto simp: processSearchHousesByChat_def)
    obtain r2 s2 where sl: "sendLoop w chatId chunks s1 = (r2, s2)" by fastforce
    have f2: "dataStoreFile s2 = Some st" using sendLoop_keeps(1) [OF sl] f1 by simp
    show ?thesis
    proof (cases r2)
      case (Inl e)
      with assms(1) ll \<open>r1 = Inr hs\<close> ch sl have "s' = s2"
        by (simp add: processSearchHousesByChat_def)
      with f2 show ?thesis by simp
    next
      case (Inr u)
      with assms(1) ll \<open>r1 = Inr hs\<close> ch sl
      have "updateAlreadySeenHouses chatId hs s2 = (r, s')"
        by (simp add: processSearchHousesByChat_def)
      from updateAlreadySeenHouses_others [OF this f2] show ?thesis .
    qed
  qed
qed

lemma process_delivery_fails:
  assumes "linkLoop w (UF_VALUE env) (searchLinks cfg) (alreadySeenHouses cfg) cfg [] s1
             = (Inr houses, s2)"
    and "chunkArray houses (CHUNK_SIZE env) = Some (sentOk @ failing # later)"
    and "sendLoop w chatId sentOk s2 = (Inr (), s3)"
    and "failing \<noteq> []" and "\<not> postSucceeds w (posted s3) chatId failing"
  shows "processSearchHousesByChat w env chatId cfg s1 =
           Some (Inl DeliveryError, s3\<lparr>posted := posted s3 @ [(chatId, failing)]\<rparr>)"
  unfolding processSearchHousesByChat_def Let_def
  by (simp add: assms(1,2) sendLoop_fails_at [OF assms(3,4,5)])

lemma mainLoop_entry_kept:
  assumes "mainLoop w env before s0 = Some (Inr (), s1)"
    and "dataStoreFile s0 = Some st" and "g \<notin> fst ` set before"
  shows "\<exists>st1. dataStoreFile s1 = Some st1 \<and> map_of st1 g = map_of st g"
  using assms
proof (induction before arbitrary: s0 st)
  case Nil
  then show ?case by simp
next
  case (Cons entry rest)
  obtain chatid cfg where entry: "entry = (chatid, cfg)" by (cases entry)
  from Cons.prems(1) entry obtain s where
    p: "processSearchHousesByChat w env chatid cfg s0 = Some (Inr (), s)"
    and rest: "mainLoop w env rest s = Some (Inr (), s1)"
    by (auto split: option.splits sum.splits prod.splits)
  from process_others [OF p Cons.prems(2)] obtain st' where
    st': "dataStoreFile s = Some st'" "\<forall>g. g \<noteq> chatid \<longrightarrow> map_of st' g = map_of st g"
    by blast
  from Cons.prems(3) entry have "g \<noteq> chatid" "g \<notin> fst ` set rest" by auto
  with Cons.IH [OF rest st'(1)] st'(2) show ?case by auto
qed

lemma main_entry_when_reached:
  assumes "distinct (map fst dataStore)"
    and "dataStore = before @ (chatId, cfg) # after"
    and "dataStoreFile s0 = Some dataStore"
    and "mainLoop w env before s0 = Some (Inr (), s1)"
  shows "\<exists>st1. dataStoreFile s1 = Some st1 \<and> map_of st1 chatId = Some cfg"
proof -
  from assms(1,2) have notin: "chatId \<notin> fst ` set before" by auto
  then have "map_of before chatId = None"
    by (simp add: map_of_eq_None_iff)
  then have "map_of dataStore chatId = Some cfg"
    using assms(2) by (simp add: map_add_def)
  with mainLoop_entry_kept [OF assms(4,3) notin] show ?thesis by simp
qed

lemma process_rejected_stay_unseen:
  assumes run: "processSearchHousesByChat w env chatId cfg s = Some (Inr (), s')"
    and fl: "dataStoreFile s = Some dataStore"
    and entry: "map_of dataStore chatId = Some cfg"
  shows "\<exists>s2 dataStore' cfg'.
           updateAlreadySeenHouses chatId
             (concat (map (\<lambda>link. filter (\<lambda>h. qualifies h (maxPrice cfg))
                                    (linkExtracted w (UF_VALUE env) (alreadySeenHouses cfg) link))
                          (searchLinks cfg))) s2 = (Inr (), s')
         \<and> dataStoreFile s' = Some dataStore'
         \<and> map_of dataStore' chatId = Some cfg'
         \<and> alreadySeenHouses cfg' =
             markAll (alreadySeenHouses cfg)
               (concat (map (\<lambda>link. filter (\<lambda>h. qualifies h (maxPrice cfg))
                                      (linkExtracted w (UF_VALUE env) (alreadySeenHouses cfg) link))
                            (searchLinks cfg)))
         \<and> (\<forall>link \<in> set (searchLinks cfg).
              \<forall>h \<in> set (linkExtracted w (UF_VALUE env) (alreadySeenHouses cfg) link).
                \<not> qualifies h (maxPrice cfg) \<longrightarrow>
                  \<not> isSeen (alreadySeenHouses cfg') (nullish (url h) [])
                  \<and> h \<in> set (linkExtracted w (UF_VALUE env) (alreadySeenHouses cfg') link))"
proof -
  let ?uf = "UF_VALUE env" and ?seen = "alreadySeenHouses cfg"
  let ?hs = "concat (map (linkHouses w ?uf ?seen cfg) (searchLinks cfg))"
  let ?cfg' = "cfg\<lparr>alreadySeenHouses := markAll ?seen ?hs\<rparr>"
  from process_Inr [OF run] obtain s2 where
    upd: "updateAlreadySeenHouses chatId ?hs s2 = (Inr (), s')"
    and f2: "dataStoreFile s2 = Some dataStore"
    using fl by auto
  from upd have f': "dataStoreFile s' = Some (setEntry chatId ?cfg' dataStore)"
    by (auto simp: updateAlreadySeenHouses_cases [OF f2] entry)
  have e': "map_of (setEntry chatId ?cfg' dataStore) chatId = Some ?cfg'"
    by (simp add: map_of_setEntry entry)
  have rejected: "\<not> isSeen (alreadySeenHouses ?cfg') (nullish (url h) [])
                  \<and> h \<in> set (linkExtracted w ?uf (alreadySeenHouses ?cfg') link)"
    if link: "link \<in> set (searchLinks cfg)" and h: "h \<in> set (linkExtracted w ?uf ?seen link)"
      and rej: "\<not> qualifies h (maxPrice cfg)" for link h
  proof -
    from h obtain cards c pg where c: "searchResults w link = Some cards" "c \<in> set cards"
      "opensHousePage ?seen c" "housePages w (candidateUrl c) = Some pg"
      "h = houseOfPage ?uf (candidateUrl c) pg"
      by (rule linkExtracted_house)
    have u: "nullish (url h) [] = candidateUrl c" using c(5) by (simp add: url_houseOfPage)
    have notin: "candidateUrl c \<notin> (\<lambda>h. nullish (url h) []) ` set ?hs"
    proof
      assume "candidateUrl c \<in> (\<lambda>h. nullish (url h) []) ` set ?hs"
      then obtain h' link' where h': "h' \<in> set (linkHouses w ?uf ?seen cfg link')"
        "nullish (url h') [] = candidateUrl c" by auto
      then have q: "qualifies h' (maxPrice cfg)"
        and "h' \<in> set (linkExtracted w ?uf ?seen link')"
        by (simp_all add: linkHouses_def)
      then obtain c' pg' where c': "housePages w (candidateUrl c') = Some pg'"
        "h' = houseOfPage ?uf (candidateUrl c') pg'"
        by (auto elim: linkExtracted_house)
      with h'(2) have "candidateUrl c' = candidateUrl c" by (simp add: url_houseOfPage)
      with c' c(4,5) have "h' = h" by simp
      with q rej show False by simp
    qed
    have unseen: "\<not> isSeen (markAll ?seen ?hs) (candidateUrl c)"
      using c(3) notin by (simp add: isSeen_markAll opensHousePage_def)
    then have "opensHousePage (markAll ?seen ?hs) c"
      using c(3) by (simp add: opensHousePage_def)
    with c(4,5) have "extractOne w ?uf (markAll ?seen ?hs) c = Some h"
      by (simp add: extractOne_Some)
    with c(1,2) have "h \<in> set (linkExtracted w ?uf (markAll ?seen ?hs) link)"
      by (auto simp: linkExtracted_def extractedFrom_set)
    with unseen u show ?thesis by simp
  qed
  have hs: "?hs = concat (map (\<lambda>link. filter (\<lambda>h. qualifies h (maxPrice cfg))
                                    (linkExtracted w ?uf ?seen link)) (searchLinks cfg))"
    by (rule arg_cong [where f = concat], rule map_cong [OF refl]) (rule linkHouses_def)
  have "alreadySeenHouses ?cfg' = markAll ?seen ?hs" by simp
  with upd f' e' rejected show ?thesis unfolding hs by blast
qed

lemma process_posts:
  assumes collect: "linkLoop w (UF_VALUE env) (searchLinks cfg) (alreadySeenHouses cfg) cfg [] s
                      = (Inr houses, s1)"
    and chunks: "chunkArray houses (CHUNK_SIZE env) = Some chunks"
    and ne: "[] \<notin> set chunks"
    and ok: "\<forall>log m. postSucceeds w log chatId m"
  shows "\<exists>r s'. processSearchHousesByChat w env chatId cfg s = Some (r, s')
           \<and> posted s' = posted s @ map (Pair chatId) chunks"
proof -
  let ?s2 = "s1\<lparr>posted := posted s1 @ map (Pair chatId) chunks\<rparr>"
  have send: "sendLoop w chatId chunks s1 = (Inr (), ?s2)"
    using ok ne by (intro sendLoop_all_succeed) simp_all
  obtain r s' where upd: "updateAlreadySeenHouses chatId houses ?s2 = (r, s')"
    by fastforce
  have run: "processSearchHousesByChat w env chatId cfg s = Some (r, s')"
    unfolding processSearchHousesByChat_def Let_def
    by (simp add: collect chunks send upd)
  have "posted s' = posted ?s2"
    using updateAlreadySeenHouses_frame [OF upd] by simp
  also have "\<dots> = posted s @ map (Pair chatId) chunks"
    using linkLoop_keeps(2) [OF collect] by simp
  finally show ?thesis using run by blast
qed

section \<open>Evaluation on the example data\<close>

lemmas eval_defs =
  houseOfPage_def retrieveSpecs_def nthOpt_def convertIntoClp_def stripDots_def toString_def
  parseInt_def isWhite_def isDigitOf_def digitVal_def digitsValue_def isAmountChar_def
  showNat.simps digitChar_def page_def listing_def Let_def

lemmas extract_defs =
  extractedFrom_def extractOne_def opensHousePage_def candidateUrl_def isSeen_def

section \<open>The budget filter\<close>

text \<open>
  C1. The budget filter reads the maintenance fee with \<open>parseInt\<close> from the text as the
  page shows it, thousands separators included, so that only the digits before the first
  separator count. For a rent of 500.000 and a maintenance fee of 120.000 the normalised
  total is 620000, which is not below a maximum of 600000, yet the filter accepts the
  house, because it counts the fee as 120.
\<close>

theorem budget_filter_counts_fee_prefix:
  "houseOfPage (Num 38000) ''h7'' (page ''500.000'' ''$'' (Some ''Gastos comunes $ 120.000''))
     = listing ''h7'' (Some ''500000'') (Some ''120.000'')
   \<and> convertIntoClp (Num 38000) ''120.000'' ''$'' = Num 120000
   \<and> parseInt ''120.000'' = Num 120
   \<and> qualifies (listing ''h7'' (Some ''500000'') (Some ''120.000'')) 600000
   \<and> \<not> js_lt (js_add (Num 500000) (Num 120000)) (Num 600000)"
  by (simp add: qualifies_def eval_defs)

text \<open>
  When the maintenance fee text has no separator, or there is no maintenance fee, the filter
  does compare the normalised total with the maximum, and strictly.
\<close>

lemma budget_filter_on_plain_fee:
  assumes "fraction pg = Some p" and "wellFormedPrice p"
    and "\<forall>ds. maintenanceFee (houseOfPage (Num rate) u pg) = Some ds \<longrightarrow> list_all isDecimalDigit ds"
  shows "qualifies (houseOfPage (Num rate) u pg) maxTotal \<longleftrightarrow>
           (if nullish (currencySymbol pg) [] = ''UF'' then int (decimalOf (stripDots p)) * rate
            else int (decimalOf (stripDots p)))
           + (case maintenanceFee (houseOfPage (Num rate) u pg) of
                None \<Rightarrow> 0 | Some ds \<Rightarrow> int (decimalOf ds))
           < maxTotal"
proof -
  let ?h = "houseOfPage (Num rate) u pg"
  have rent: "parseInt (nullish (rentPrice ?h) ''0'')
           = Num (if nullish (currencySymbol pg) [] = ''UF'' then int (decimalOf (stripDots p)) * rate
                  else int (decimalOf (stripDots p)))"
    by (simp only: rent_amount_normalised [OF assms(1,2)] convertIntoClp_digits [OF assms(2)])
  have fee: "parseInt (nullish (maintenanceFee ?h) ''0'')
           = Num (case maintenanceFee ?h of None \<Rightarrow> 0 | Some ds \<Rightarrow> int (decimalOf ds))"
  proof (cases "maintenanceFee ?h")
    case None
    then show ?thesis by (simp add: parseInt_zero_text)
  next
    case (Some ds)
    then have "ds \<noteq> []"
      by (simp add: maintenanceFee_houseOfPage matchMaintenanceFee_nonempty)
    with Some assms(3) show ?thesis by (simp add: parseInt_digits)
  qed
  show ?thesis by (simp add: qualifies_def rent fee)
qed

section \<open>Price normalisation\<close>

text \<open>
  C2. On a well-formed raw price, \<open>convertIntoClp\<close> removes the thousands separators
  (the dots), reads what is left as a decimal integer, multiplies it by the exchange rate
  exactly when the unit is \<open>UF\<close>, and returns it unchanged for any other unit. The
  statement covers the range in which JavaScript numbers are exact: the integer that the
  digits of the price denote is a safe integer, and for the unit \<open>UF\<close> so are the rate and
  the product. The raw price \<open>2.500\<close> in \<open>UF\<close> at the rate 38000 gives 95000000.
\<close>

theorem convertIntoClp_wellFormed:
  "(wellFormedPrice rawPrice
      \<and> safeInteger (priceValue rawPrice)
      \<and> (unitPrice = ''UF'' \<longrightarrow> safeInteger rate \<and> safeInteger (priceValue rawPrice * rate))
    \<longrightarrow>
      convertIntoClp (Num rate) rawPrice unitPrice =
        Num (if unitPrice = ''UF'' then priceValue rawPrice * rate else priceValue rawPrice))
   \<and> convertIntoClp (Num 38000) ''2.500'' ''UF'' = Num 95000000"
proof (intro conjI impI)
  assume "wellFormedPrice rawPrice
      \<and> safeInteger (priceValue rawPrice)
      \<and> (unitPrice = ''UF'' \<longrightarrow> safeInteger rate \<and> safeInteger (priceValue rawPrice * rate))"
  then have "wellFormedPrice rawPrice" by simp
  then show "convertIntoClp (Num rate) rawPrice unitPrice =
        Num (if unitPrice = ''UF'' then priceValue rawPrice * rate else priceValue rawPrice)"
    by (rule convertIntoClp_value)
next
  show "convertIntoClp (Num 38000) ''2.500'' ''UF'' = Num 95000000"
    by (simp add: convertIntoClp_digits [OF wellFormed_2500] stripDots_def)
qed

theorem convertIntoClp_wellFormed_witness:
  "wellFormedPrice ''1.250.000''
   \<and> priceValue ''1.250.000'' = 1250000
   \<and> safeInteger (priceValue ''1.250.000'')
   \<and> safeInteger 38000
   \<and> safeInteger (priceValue ''1.250.000'' * 38000)
   \<and> convertIntoClp (Num 38000) ''1.250.000'' ''$'' = Num 1250000
   \<and> convertIntoClp (Num 38000) ''1.250.000'' ''UF'' = Num 47500000000"
proof -
  have wf: "wellFormedPrice ''1.250.000''"
    by (simp add: wellFormedPrice_def isDecimalDigit_def)
  have v: "priceValue ''1.250.000'' = 1250000"
    by (simp add: priceValue_def isDecimalDigit_def)
  have s: "safeInteger (priceValue ''1.250.000'')" "safeInteger 38000"
    "safeInteger (priceValue ''1.250.000'' * 38000)"
    by (simp_all add: v safeInteger_def)
  from convertIntoClp_wellFormed [of "''1.250.000''" "''$''" 38000]
    convertIntoClp_wellFormed [of "''1.250.000''" "''UF''" 38000] wf s
  have "convertIntoClp (Num 38000) ''1.250.000'' ''$'' = Num 1250000"
    "convertIntoClp (Num 38000) ''1.250.000'' ''UF'' = Num 47500000000"
    by (simp_all add: v)
  with wf v s show ?thesis by simp
qed

section \<open>Prices that do not parse\<close>

text \<open>
  C3, as amended. Let the price text of a house page fail to parse after the separators
  are removed. When the text is empty the rent of the house is absent and the budget filter
  counts it as 0. When the text is not empty there is no fallback to zero: the rent is the
  text \<open>NaN\<close>, the amount that enters the comparison is the invalid number, the comparison
  with the maximum is false and the filter rejects the house.
\<close>

theorem malformed_price_in_budget_comparison:
  assumes "fraction pg = Some rawPrice" and "parseInt (stripDots rawPrice) = NaN"
  shows "(rawPrice = [] \<longrightarrow>
            rentPrice (houseOfPage uf u pg) = None
          \<and> parseInt (nullish (rentPrice (houseOfPage uf u pg)) ''0'') = Num 0
          \<and> qualifies (houseOfPage uf u pg) maxTotal =
              js_lt (parseInt (nullish (maintenanceFee (houseOfPage uf u pg)) ''0'')) (Num maxTotal))
       \<and> (rawPrice \<noteq> [] \<longrightarrow>
            rentPrice (houseOfPage uf u pg) = Some ''NaN''
          \<and> parseInt (nullish (rentPrice (houseOfPage uf u pg)) ''0'') = NaN
          \<and> \<not> qualifies (houseOfPage uf u pg) maxTotal)"
proof (intro conjI impI)
  assume e: "rawPrice = []"
  with assms(1) show none: "rentPrice (houseOfPage uf u pg) = None"
    by (simp add: rentPrice_houseOfPage)
  then show "parseInt (nullish (rentPrice (houseOfPage uf u pg)) ''0'') = Num 0"
    by (simp add: parseInt_zero_text)
  from none show "qualifies (houseOfPage uf u pg) maxTotal =
      js_lt (parseInt (nullish (maintenanceFee (houseOfPage uf u pg)) ''0'')) (Num maxTotal)"
    by (simp add: qualifies_def parseInt_zero_text js_add_zero)
next
  assume ne: "rawPrice \<noteq> []"
  with assms show nan: "rentPrice (houseOfPage uf u pg) = Some ''NaN''"
    by (simp add: rentPrice_houseOfPage convertIntoClp_NaN toString_def)
  then show "parseInt (nullish (rentPrice (houseOfPage uf u pg)) ''0'') = NaN"
    by (simp add: parseInt_NaN_text)
  from nan show "\<not> qualifies (houseOfPage uf u pg) maxTotal"
    by (simp add: qualifies_def parseInt_NaN_text)
qed

theorem malformed_price_in_budget_comparison_witness:
  "fraction (page ''abc'' ''$'' None) = Some ''abc''
   \<and> parseInt (stripDots ''abc'') = NaN
   \<and> rentPrice (houseOfPage (Num 38000) ''h6'' (page ''abc'' ''$'' None)) = Some ''NaN''
   \<and> \<not> qualifies (houseOfPage (Num 38000) ''h6'' (page ''abc'' ''$'' None)) 500000
   \<and> fraction (page [] ''$'' None) = Some []
   \<and> parseInt (stripDots []) = NaN
   \<and> parseInt (nullish (rentPrice (houseOfPage (Num 38000) ''h6'' (page [] ''$'' None))) ''0'') = Num 0"
proof -
  have f1: "fraction (page ''abc'' ''$'' None) = Some ''abc''" by (simp add: page_def)
  have n1: "parseInt (stripDots ''abc'') = NaN"
    by (simp add: stripDots_def parseInt_def isWhite_def isDigitOf_def digitVal_def)
  have f2: "fraction (page [] ''$'' None) = Some []" by (simp add: page_def)
  have n2: "parseInt (stripDots []) = NaN"
    by (simp add: stripDots_def parseInt_def)
  from malformed_price_in_budget_comparison [OF f1 n1, of "Num 38000" "''h6''" 500000]
    malformed_price_in_budget_comparison [OF f2 n2, of "Num 38000" "''h6''" 500000]
    f1 n1 f2 n2
  show ?thesis by blast
qed

text \<open>
  The claim as the specification states it fails on the price text \<open>abc\<close>: the rent that
  enters the comparison is the invalid number and the house is rejected, although a rent of
  0 with no maintenance fee is below the maximum.
\<close>

theorem malformed_price_counterexample:
  "parseInt (nullish (rentPrice (houseOfPage (Num 38000) ''h6'' (page ''abc'' ''$'' None))) ''0'') = NaN
   \<and> maintenanceFee (houseOfPage (Num 38000) ''h6'' (page ''abc'' ''$'' None)) = None
   \<and> \<not> qualifies (houseOfPage (Num 38000) ''h6'' (page ''abc'' ''$'' None)) 500000
   \<and> js_lt (js_add (Num 0) (Num 0)) (Num 500000)"
  by (simp add: qualifies_def eval_defs)

section \<open>What reaches the seen-set\<close>

text \<open>
  C4. Take a run of \<open>main\<close> over a store whose chats are distinct, at the moment it has
  processed the chats before some chat in full, and let the processing of that chat
  complete. The list handed to \<open>updateAlreadySeenHouses\<close> is the list of the houses that
  passed the budget filter, link by link, and the seen-set of the chat afterwards is the
  one before with exactly their URLs merged in. A house that was read and rejected by the
  filter is not flagged in the seen-set after the run, and with the pages unchanged it is
  read again under the new seen-set.
\<close>

theorem rejected_listings_stay_unseen:
  assumes keys: "distinct (map fst dataStore)"
    and order: "dataStore = before @ (chatId, cfg) # after"
    and start: "dataStoreFile s0 = Some dataStore"
    and earlier: "mainLoop w env before s0 = Some (Inr (), s1)"
    and run: "processSearchHousesByChat w env chatId cfg s1 = Some (Inr (), s')"
  shows "\<exists>s2 dataStore' cfg'.
           updateAlreadySeenHouses chatId
             (concat (map (\<lambda>link. filter (\<lambda>h. qualifies h (maxPrice cfg))
                                    (linkExtracted w (UF_VALUE env) (alreadySeenHouses cfg) link))
                          (searchLinks cfg))) s2 = (Inr (), s')
         \<and> dataStoreFile s' = Some dataStore'
         \<and> map_of dataStore' chatId = Some cfg'
         \<and> alreadySeenHouses cfg' =
             markAll (alreadySeenHouses cfg)
               (concat (map (\<lambda>link. filter (\<lambda>h. qualifies h (maxPrice cfg))
                                      (linkExtracted w (UF_VALUE env) (alreadySeenHouses cfg) link))
                            (searchLinks cfg)))
         \<and> (\<forall>link \<in> set (searchLinks cfg).
              \<forall>h \<in> set (linkExtracted w (UF_VALUE env) (alreadySeenHouses cfg) link).
                \<not> qualifies h (maxPrice cfg) \<longrightarrow>
                  \<not> isSeen (alreadySeenHouses cfg') (nullish (url h) [])
                  \<and> h \<in> set (linkExtracted w (UF_VALUE env) (alreadySeenHouses cfg') link))"
proof -
  from main_entry_when_reached [OF keys order start earlier] obtain st1 where
    "dataStoreFile s1 = Some st1" "map_of st1 chatId = Some cfg"
    by blast
  then show ?thesis by (rule process_rejected_stay_unseen [OF run])
qed

theorem rejected_listings_stay_unseen_witness:
  "\<exists>s1 s' dataStore' cfg'.
      distinct (map fst demoStore)
    \<and> demoStore = [(''g1'', demoConfig [''s0''] Map.empty)]
         @ (''g2'', demoConfig [''s1''] (Map.empty(''h9'' \<mapsto> False))) # []
    \<and> dataStoreFile (demoState demoStore) = Some demoStore
    \<and> mainLoop (demoWorld (\<lambda>log. True)) demoEnv [(''g1'', demoConfig [''s0''] Map.empty)]
          (demoState demoStore) = Some (Inr (), s1)
    \<and> processSearchHousesByChat (demoWorld (\<lambda>log. True)) demoEnv ''g2''
          (demoConfig [''s1''] (Map.empty(''h9'' \<mapsto> False))) s1 = Some (Inr (), s')
    \<and> listing ''h3'' (Some ''700000'') None
        \<in> set (linkExtracted (demoWorld (\<lambda>log. True)) (Num 38000) (Map.empty(''h9'' \<mapsto> False)) ''s1'')
    \<and> \<not> qualifies (listing ''h3'' (Some ''700000'') None) 500000
    \<and> dataStoreFile s' = Some dataStore'
    \<and> map_of dataStore' ''g2'' = Some cfg'
    \<and> \<not> isSeen (alreadySeenHouses cfg') ''h3''
    \<and> isSeen (alreadySeenHouses cfg') ''h1''
    \<and> listing ''h3'' (Some ''700000'') None
        \<in> set (linkExtracted (demoWorld (\<lambda>log. True)) (Num 38000) (alreadySeenHouses cfg') ''s1'')"
proof -
  let ?w = "demoWorld (\<lambda>log. True)"
  let ?cfg1 = "demoConfig [''s0''] Map.empty"
  let ?seen = "Map.empty(''h9'' \<mapsto> False)"
  let ?cfg = "demoConfig [''s1''] ?seen"
  let ?s0 = "demoState demoStore"
  let ?h1 = "listing ''h1'' (Some ''450000'') (Some ''50.000'')"
  let ?h2 = "listing ''h2'' (Some ''456000'') None"
  let ?h3 = "listing ''h3'' (Some ''700000'') None"
  let ?h5 = "listing ''h5'' (Some ''300000'') None"
  let ?hs = "[?h1, ?h2, ?h5]"
  have env: "UF_VALUE demoEnv = Num 38000" "CHUNK_SIZE demoEnv = Num 1"
    by (simp_all add: demoEnv_def)
  have cfg1: "searchLinks ?cfg1 = [''s0'']" "alreadySeenHouses ?cfg1 = Map.empty"
    "maxPrice ?cfg1 = 500000"
    by (simp_all add: demoConfig_def)
  have cfg: "searchLinks ?cfg = [''s1'']" "alreadySeenHouses ?cfg = ?seen" "maxPrice ?cfg = 500000"
    by (simp_all add: demoConfig_def)
  have keys: "distinct (map fst demoStore)" by (simp add: demoStore_def)
  have order: "demoStore = [(''g1'', ?cfg1)] @ (''g2'', ?cfg) # []" by (simp add: demoStore_def)
  have start: "dataStoreFile ?s0 = Some demoStore" by (simp add: demoState_def)

  have loads1: "\<forall>l \<in> set (searchLinks ?cfg1). searchResults ?w l \<noteq> None"
    by (simp add: demoWorld_def demoConfig_def)
  have houses1: "linkHouses ?w (Num 38000) Map.empty ?cfg1 ''s0'' = [?h5]"
    by (simp add: linkHouses_cases demoWorld_def demoConfig_def extract_defs qualifies_def eval_defs)
  have chunks1: "chunkArray (concat (map (linkHouses ?w (UF_VALUE demoEnv) (alreadySeenHouses ?cfg1) ?cfg1)
           (searchLinks ?cfg1))) (CHUNK_SIZE demoEnv) = Some (map (\<lambda>x. [x]) [?h5])"
    by (simp only: cfg1 env houses1 chunkArray_one list.map concat.simps append_Nil2)
  let ?a1 = "?s0\<lparr>opened := opened ?s0 @ concat (map (linkVisits ?w (alreadySeenHouses ?cfg1)) (searchLinks ?cfg1))\<rparr>"
  let ?a2 = "?a1\<lparr>posted := posted ?a1 @ map (Pair ''g1'') (map (\<lambda>x. [x]) [?h5])\<rparr>"
  have send1: "sendLoop ?w ''g1'' (map (\<lambda>x. [x]) [?h5]) ?a1 = (Inr (), ?a2)"
    by (rule sendLoop_all_succeed) (simp_all add: demoWorld_def)
  have fa2: "dataStoreFile ?a2 = Some demoStore" by (simp add: demoState_def)
  have entry1: "map_of demoStore ''g1'' = Some ?cfg1" by (simp add: demoStore_def)
  let ?c1 = "?cfg1\<lparr>alreadySeenHouses := markAll (alreadySeenHouses ?cfg1) [?h5]\<rparr>"
  let ?s1 = "?a2\<lparr>dataStoreFile := Some (setEntry ''g1'' ?c1 demoStore)\<rparr>"
  have upd1: "updateAlreadySeenHouses ''g1''
        (concat (map (linkHouses ?w (UF_VALUE demoEnv) (alreadySeenHouses ?cfg1) ?cfg1) (searchLinks ?cfg1))) ?a2
       = (Inr (), ?s1)"
    by (subst updateAlreadySeenHouses_cases [OF fa2]) (simp add: cfg1 env houses1 entry1)
  have run1: "processSearchHousesByChat ?w demoEnv ''g1'' ?cfg1 ?s0 = Some (Inr (), ?s1)"
    by (simp only: process_all_load [OF loads1 chunks1] send1 upd1 prod.case sum.case)
  have earlier: "mainLoop ?w demoEnv [(''g1'', ?cfg1)] ?s0 = Some (Inr (), ?s1)"
    by (simp only: mainLoop.simps run1 option.case prod.case sum.case)

  have loads: "\<forall>l \<in> set (searchLinks ?cfg). searchResults ?w l \<noteq> None"
    by (simp add: demoWorld_def demoConfig_def)
  have ex: "linkExtracted ?w (Num 38000) ?seen ''s1'' = [?h1, ?h2, ?h3, ?h5]"
    by (simp add: linkExtracted_def demoWorld_def extract_defs eval_defs)
  have q: "qualifies ?h1 500000" "qualifies ?h2 500000" "\<not> qualifies ?h3 500000"
    "qualifies ?h5 500000"
    by (simp_all add: qualifies_def eval_defs)
  have houses: "linkHouses ?w (Num 38000) ?seen ?cfg ''s1'' = ?hs"
    by (simp add: linkHouses_def ex q cfg)
  have chunks: "chunkArray (concat (map (linkHouses ?w (UF_VALUE demoEnv) (alreadySeenHouses ?cfg) ?cfg)
           (searchLinks ?cfg))) (CHUNK_SIZE demoEnv) = Some (map (\<lambda>x. [x]) ?hs)"
    by (simp only: cfg env houses chunkArray_one list.map concat.simps append_Nil2)
  let ?b1 = "?s1\<lparr>opened := opened ?s1 @ concat (map (linkVisits ?w (alreadySeenHouses ?cfg)) (searchLinks ?cfg))\<rparr>"
  let ?b2 = "?b1\<lparr>posted := posted ?b1 @ map (Pair ''g2'') (map (\<lambda>x. [x]) ?hs)\<rparr>"
  have send: "sendLoop ?w ''g2'' (map (\<lambda>x. [x]) ?hs) ?b1 = (Inr (), ?b2)"
    by (rule sendLoop_all_succeed) (simp_all add: demoWorld_def)
  let ?st1 = "setEntry ''g1'' ?c1 demoStore"
  have fb2: "dataStoreFile ?b2 = Some ?st1" by simp
  have entry: "map_of ?st1 ''g2'' = Some ?cfg" by (simp add: map_of_setEntry demoStore_def)
  let ?s3 = "?b2\<lparr>dataStoreFile := Some (setEntry ''g2''
      (?cfg\<lparr>alreadySeenHouses := markAll (alreadySeenHouses ?cfg) ?hs\<rparr>) ?st1)\<rparr>"
  have upd: "updateAlreadySeenHouses ''g2''
        (concat (map (linkHouses ?w (UF_VALUE demoEnv) (alreadySeenHouses ?cfg) ?cfg) (searchLinks ?cfg))) ?b2
       = (Inr (), ?s3)"
    by (subst updateAlreadySeenHouses_cases [OF fb2]) (simp add: cfg env houses entry)
  have run: "processSearchHousesByChat ?w demoEnv ''g2'' ?cfg ?s1 = Some (Inr (), ?s3)"
    by (simp only: process_all_load [OF loads chunks] send upd prod.case sum.case)

  from rejected_listings_stay_unseen [OF keys order start earlier run]
  obtain dataStore' cfg' where d: "dataStoreFile ?s3 = Some dataStore'"
    "map_of dataStore' ''g2'' = Some cfg'"
    and seen': "alreadySeenHouses cfg' =
             markAll (alreadySeenHouses ?cfg)
               (concat (map (\<lambda>link. filter (\<lambda>h. qualifies h (maxPrice ?cfg))
                                      (linkExtracted ?w (UF_VALUE demoEnv) (alreadySeenHouses ?cfg) link))
                            (searchLinks ?cfg)))"
    and rej: "\<forall>link \<in> set (searchLinks ?cfg).
              \<forall>h \<in> set (linkExtracted ?w (UF_VALUE demoEnv) (alreadySeenHouses ?cfg) link).
                \<not> qualifies h (maxPrice ?cfg) \<longrightarrow>
                  \<not> isSeen (alreadySeenHouses cfg') (nullish (url h) [])
                  \<and> h \<in> set (linkExtracted ?w (UF_VALUE demoEnv) (alreadySeenHouses cfg') link)"
    by blast
  have "?h3 \<in> set (linkExtracted ?w (UF_VALUE demoEnv) (alreadySeenHouses ?cfg) ''s1'')"
    by (simp only: cfg env ex) simp
  with rej q(3) have "\<not> isSeen (alreadySeenHouses cfg') (nullish (url ?h3) [])
      \<and> ?h3 \<in> set (linkExtracted ?w (UF_VALUE demoEnv) (alreadySeenHouses cfg') ''s1'')"
    by (simp add: cfg)
  then have h3: "\<not> isSeen (alreadySeenHouses cfg') ''h3''"
    "?h3 \<in> set (linkExtracted ?w (Num 38000) (alreadySeenHouses cfg') ''s1'')"
    by (simp_all add: listing_def env)
  have "concat (map (\<lambda>link. filter (\<lambda>h. qualifies h (maxPrice ?cfg))
                                      (linkExtracted ?w (UF_VALUE demoEnv) (alreadySeenHouses ?cfg) link))
                            (searchLinks ?cfg)) = ?hs"
    by (simp add: cfg env ex q)
  then have h1: "isSeen (alreadySeenHouses cfg') ''h1''"
    unfolding seen' by (simp add: isSeen_markAll listing_def)
  have h3in: "?h3 \<in> set (linkExtracted ?w (Num 38000) ?seen ''s1'')"
    by (simp only: ex) simp
  from keys order start earlier run h3in q(3) d h3 h1 show ?thesis
    by (intro exI [of _ ?s1] exI [of _ ?s3] exI [of _ dataStore'] exI [of _ cfg']) (intro conjI)
qed

section \<open>A run over a fully seen chat\<close>

text \<open>
  C5. When every candidate URL on the search pages of a chat is already flagged in its
  seen-set, the run of that chat returns, collects no listing (or stops at a search page
  that fails to load), opens search pages only, makes no call to the messaging API and
  leaves the data store file as it was.
\<close>

theorem second_run_collects_and_sends_nothing:
  assumes "allCandidatesSeen w cfg"
  shows "\<exists>r s' new.
           processSearchHousesByChat w env chatId cfg s = Some (r, s')
         \<and> s' = s\<lparr>opened := opened s @ new\<rparr>
         \<and> (\<forall>u. HousePage u \<notin> set new)
         \<and> posted s' = posted s
         \<and> dataStoreFile s' = dataStoreFile s
         \<and> (case fst (linkLoop w (UF_VALUE env) (searchLinks cfg) (alreadySeenHouses cfg) cfg [] s) of
               Inl e \<Rightarrow> e = NavigationError
             | Inr allHousesLinkData \<Rightarrow> allHousesLinkData = [])"
proof -
  let ?seen = "alreadySeenHouses cfg"
  obtain r1 s1 where ll: "linkLoop w (UF_VALUE env) (searchLinks cfg) ?seen cfg [] s = (r1, s1)"
    by fastforce
  from linkLoop_result [OF ll] obtain new where
    s1: "s1 = s\<lparr>opened := opened s @ new\<rparr>"
    and sub: "set new \<subseteq> (\<Union>l \<in> set (searchLinks cfg). set (linkVisits w ?seen l))"
    and res: "case r1 of
               Inl e \<Rightarrow> e = NavigationError \<and> (\<exists>l \<in> set (searchLinks cfg). searchResults w l = None)
             | Inr allHouses \<Rightarrow>
                 allHouses = [] @ concat (map (linkHouses w (UF_VALUE env) ?seen cfg) (searchLinks cfg))
                 \<and> (\<forall>l \<in> set (searchLinks cfg). searchResults w l \<noteq> None)"
    by blast
  have nohouse: "\<forall>u. HousePage u \<notin> set new"
  proof (intro allI notI)
    fix u assume "HousePage u \<in> set new"
    with sub obtain l where l: "l \<in> set (searchLinks cfg)"
      and "HousePage u \<in> set (linkVisits w ?seen l)" by blast
    with allSeen_link(2) [OF assms l] show False by simp
  qed
  have none: "concat (map (linkHouses w (UF_VALUE env) ?seen cfg) (searchLinks cfg)) = []"
    using allSeen_link(1) [OF assms] by simp
  have collected: "case r1 of Inl e \<Rightarrow> e = NavigationError | Inr hs \<Rightarrow> hs = []"
    using res none by (cases r1) simp_all
  have "\<exists>r. processSearchHousesByChat w env chatId cfg s = Some (r, s1)"
  proof (cases r1)
    case (Inl e)
    with ll show ?thesis by (simp add: processSearchHousesByChat_def)
  next
    case (Inr hs)
    with collected have "hs = []" by simp
    with ll Inr show ?thesis
      by (simp add: processSearchHousesByChat_def chunkArray_empty updateAlreadySeenHouses_Nil)
  qed
  then obtain r where "processSearchHousesByChat w env chatId cfg s = Some (r, s1)" by blast
  moreover have "posted s1 = posted s" "dataStoreFile s1 = dataStoreFile s"
    using s1 by simp_all
  moreover have "fst (linkLoop w (UF_VALUE env) (searchLinks cfg) ?seen cfg [] s) = r1"
    using ll by simp
  ultimately show ?thesis
    using s1 nohouse collected by (intro exI [of _ r] exI [of _ s1] exI [of _ new]) simp
qed

theorem second_run_collects_and_sends_nothing_witness:
  "allCandidatesSeen (demoWorld (\<lambda>log. True))
     (demoConfig [''s1''] (Map.empty(''h1'' \<mapsto> True, ''h2'' \<mapsto> True, ''h3'' \<mapsto> True,
        ''h4'' \<mapsto> True, ''h5'' \<mapsto> True)))
   \<and> (\<exists>r s'. processSearchHousesByChat (demoWorld (\<lambda>log. True)) demoEnv ''g2''
         (demoConfig [''s1''] (Map.empty(''h1'' \<mapsto> True, ''h2'' \<mapsto> True, ''h3'' \<mapsto> True,
            ''h4'' \<mapsto> True, ''h5'' \<mapsto> True)))
         (demoState demoStore) = Some (r, s')
       \<and> posted s' = [] \<and> dataStoreFile s' = Some demoStore)"
proof -
  let ?cfg = "demoConfig [''s1''] (Map.empty(''h1'' \<mapsto> True, ''h2'' \<mapsto> True, ''h3'' \<mapsto> True,
        ''h4'' \<mapsto> True, ''h5'' \<mapsto> True))"
  have seen: "allCandidatesSeen (demoWorld (\<lambda>log. True)) ?cfg"
    by (simp add: allCandidatesSeen_def cardSeen_def demoWorld_def demoConfig_def isSeen_def)
  from second_run_collects_and_sends_nothing [OF seen, of demoEnv "''g2''" "demoState demoStore"]
  obtain r s' where "processSearchHousesByChat (demoWorld (\<lambda>log. True)) demoEnv ''g2'' ?cfg
         (demoState demoStore) = Some (r, s')"
    and "posted s' = posted (demoState demoStore)"
    and "dataStoreFile s' = dataStoreFile (demoState demoStore)"
    by blast
  with seen show ?thesis by (auto simp: demoState_def)
qed

section \<open>Deduplication before the fetch\<close>

text \<open>
  C6. A candidate whose URL without the fragment is flagged in the seen-set never has its
  house page opened: \<open>retrieveHouseCardInfo\<close> returns null and leaves the run state, and
  with it the list of opened pages, as it was; and among the pages that the whole run of a
  chat opens there is no house page with that URL.
\<close>

theorem seen_url_never_opened:
  assumes "isSeen seen u"
  shows "(takeWhile (\<lambda>c. c \<noteq> CHR ''#'') rawUrl = u \<longrightarrow>
            retrieveHouseCardInfo w uf (Found rawUrl) seen s = (None, s))
       \<and> (alreadySeenHouses cfg = seen \<longrightarrow>
            processSearchHousesByChat w env chatId cfg s = Some (r, s') \<longrightarrow>
            (\<exists>new. opened s' = opened s @ new \<and> HousePage u \<notin> set new))"
proof (intro conjI impI)
  assume "takeWhile (\<lambda>c. c \<noteq> CHR ''#'') rawUrl = u"
  with assms show "retrieveHouseCardInfo w uf (Found rawUrl) seen s = (None, s)"
    by (simp add: retrieveHouseCardInfo_def Let_def)
next
  assume "alreadySeenHouses cfg = seen"
    and "processSearchHousesByChat w env chatId cfg s = Some (r, s')"
  with process_opened [of w env chatId cfg s r s'] assms
  show "\<exists>new. opened s' = opened s @ new \<and> HousePage u \<notin> set new"
    by blast
qed

theorem seen_url_never_opened_witness:
  "isSeen (Map.empty(''h1'' \<mapsto> True)) ''h1''
   \<and> retrieveHouseCardInfo (demoWorld (\<lambda>log. True)) (Num 38000) (Found ''h1#top'')
        (Map.empty(''h1'' \<mapsto> True)) (demoState [(''g2'', demoConfig [''s1''] (Map.empty(''h1'' \<mapsto> True)))]) = (None, demoState [(''g2'', demoConfig [''s1''] (Map.empty(''h1'' \<mapsto> True)))])
   \<and> (\<exists>s'. processSearchHousesByChat (demoWorld (\<lambda>log. True)) demoEnv ''g2''
              (demoConfig [''s1''] (Map.empty(''h1'' \<mapsto> True))) (demoState [(''g2'', demoConfig [''s1''] (Map.empty(''h1'' \<mapsto> True)))]) = Some (Inr (), s')
          \<and> opened s' = [SearchPage ''s1'', HousePage ''h2'', HousePage ''h3'', HousePage ''h4'',
                HousePage ''h5''])"
proof -
  let ?w = "demoWorld (\<lambda>log. True)"
  let ?seen = "Map.empty(''h1'' \<mapsto> True)"
  let ?cfg = "demoConfig [''s1''] ?seen"
  let ?s = "demoState [(''g2'', ?cfg)]"
  let ?hs = "[listing ''h2'' (Some ''456000'') None, listing ''h5'' (Some ''300000'') None]"
  have seen: "isSeen ?seen ''h1''" by (simp add: isSeen_def)
  have strip: "takeWhile (\<lambda>c. c \<noteq> CHR ''#'') ''h1#top'' = ''h1''" by simp
  have cfg: "searchLinks ?cfg = [''s1'']" "alreadySeenHouses ?cfg = ?seen"
    "UF_VALUE demoEnv = Num 38000" "CHUNK_SIZE demoEnv = Num 1"
    by (simp_all add: demoConfig_def demoEnv_def)
  have loads: "\<forall>l \<in> set (searchLinks ?cfg). searchResults ?w l \<noteq> None"
    by (simp add: demoWorld_def demoConfig_def)
  have houses: "linkHouses ?w (Num 38000) ?seen ?cfg ''s1'' = ?hs"
    by (simp add: linkHouses_cases demoWorld_def demoConfig_def extract_defs qualifies_def eval_defs)
  have visits: "linkVisits ?w ?seen ''s1''
      = [SearchPage ''s1'', HousePage ''h2'', HousePage ''h3'', HousePage ''h4'', HousePage ''h5'']"
    by (simp add: linkVisits_def demoWorld_def opensHousePage_def candidateUrl_def isSeen_def)
  have chunks: "chunkArray (concat (map (linkHouses ?w (UF_VALUE demoEnv) (alreadySeenHouses ?cfg) ?cfg)
           (searchLinks ?cfg))) (CHUNK_SIZE demoEnv) = Some (map (\<lambda>x. [x]) ?hs)"
    by (simp only: cfg houses chunkArray_one list.map concat.simps append_Nil2)
  let ?s1 = "?s\<lparr>opened := opened ?s @ concat (map (linkVisits ?w (alreadySeenHouses ?cfg)) (searchLinks ?cfg))\<rparr>"
  let ?s2 = "?s1\<lparr>posted := posted ?s1 @ map (Pair ''g2'') (map (\<lambda>x. [x]) ?hs)\<rparr>"
  have send: "sendLoop ?w ''g2'' (map (\<lambda>x. [x]) ?hs) ?s1 = (Inr (), ?s2)"
    by (rule sendLoop_all_succeed) (simp_all add: demoWorld_def)
  have fl: "dataStoreFile ?s2 = Some [(''g2'', ?cfg)]" by (simp add: demoState_def)
  let ?s3 = "?s2\<lparr>dataStoreFile := Some (setEntry ''g2''
      (?cfg\<lparr>alreadySeenHouses := markAll (alreadySeenHouses ?cfg) ?hs\<rparr>) [(''g2'', ?cfg)])\<rparr>"
  have upd: "updateAlreadySeenHouses ''g2''
        (concat (map (linkHouses ?w (UF_VALUE demoEnv) (alreadySeenHouses ?cfg) ?cfg) (searchLinks ?cfg))) ?s2
       = (Inr (), ?s3)"
    by (subst updateAlreadySeenHouses_cases [OF fl]) (simp add: cfg houses)
  have run: "processSearchHousesByChat ?w demoEnv ''g2'' ?cfg ?s = Some (Inr (), ?s3)"
    by (simp only: process_all_load [OF loads chunks] send upd prod.case sum.case)
  have op: "opened ?s3 = [SearchPage ''s1'', HousePage ''h2'', HousePage ''h3'', HousePage ''h4'',
                HousePage ''h5'']"
    by (simp add: cfg visits demoState_def)
  from seen_url_never_opened [OF seen, of "''h1#top''" ?w "Num 38000" ?s ?cfg demoEnv "''g2''" "Inr ()" ?s3]
    strip cfg(2) run
  have card: "retrieveHouseCardInfo ?w (Num 38000) (Found ''h1#top'') ?seen ?s = (None, ?s)"
    by blast
  from seen card run op show ?thesis by blast
qed

section \<open>A delivery that fails\<close>

text \<open>
  C7. When the chats before a chat have been processed in full and the delivery of one of
  the chunks of that chat fails after the chunks before it were sent, the run stops with
  the delivery error: the failed call is the last call made to the messaging API, so that
  no later chunk and no later chat is sent, and the data store file is the one the chats
  processed before left, so that this chat's seen-set is not updated and theirs are kept.
\<close>

theorem delivery_failure_stops_the_run:
  assumes earlier: "mainLoop w env before s0 = Some (Inr (), s1)"
    and collect: "linkLoop w (UF_VALUE env) (searchLinks cfg) (alreadySeenHouses cfg) cfg [] s1
                    = (Inr houses, s2)"
    and chunks: "chunkArray houses (CHUNK_SIZE env) = Some (sentOk @ failing # later)"
    and sent: "sendLoop w chatId sentOk s2 = (Inr (), s3)"
    and fails: "failing \<noteq> []" "\<not> postSucceeds w (posted s3) chatId failing"
  shows "mainLoop w env (before @ (chatId, cfg) # after) s0 =
           Some (Inl DeliveryError, s3\<lparr>posted := posted s3 @ [(chatId, failing)]\<rparr>)
         \<and> dataStoreFile (s3\<lparr>posted := posted s3 @ [(chatId, failing)]\<rparr>) = dataStoreFile s1"
proof
  show "mainLoop w env (before @ (chatId, cfg) # after) s0 =
           Some (Inl DeliveryError, s3\<lparr>posted := posted s3 @ [(chatId, failing)]\<rparr>)"
    by (simp add: mainLoop_append earlier
          process_delivery_fails [OF collect chunks sent fails])
  show "dataStoreFile (s3\<lparr>posted := posted s3 @ [(chatId, failing)]\<rparr>) = dataStoreFile s1"
    using linkLoop_keeps(1) [OF collect] sendLoop_keeps(1) [OF sent] by simp
qed

theorem delivery_failure_stops_the_run_witness:
  "\<exists>s' st c1.
      mainLoop (demoWorld (\<lambda>log. length log \<noteq> 2)) demoEnv demoStore (demoState demoStore)
        = Some (Inl DeliveryError, s')
    \<and> posted s' = [(''g1'', [listing ''h5'' (Some ''300000'') None]),
                     (''g2'', [listing ''h1'' (Some ''450000'') (Some ''50.000'')]),
                     (''g2'', [listing ''h2'' (Some ''456000'') None])]
    \<and> dataStoreFile s' = Some st
    \<and> map_of st ''g1'' = Some c1 \<and> isSeen (alreadySeenHouses c1) ''h5''
    \<and> map_of st ''g2'' = Some (demoConfig [''s1''] (Map.empty(''h9'' \<mapsto> False)))"
proof -
  let ?w = "demoWorld (\<lambda>log. length log \<noteq> 2)"
  let ?cfg1 = "demoConfig [''s0''] Map.empty"
  let ?seen = "Map.empty(''h9'' \<mapsto> False)"
  let ?cfg2 = "demoConfig [''s1''] ?seen"
  let ?s0 = "demoState demoStore"
  let ?h1 = "listing ''h1'' (Some ''450000'') (Some ''50.000'')"
  let ?h2 = "listing ''h2'' (Some ''456000'') None"
  let ?h5 = "listing ''h5'' (Some ''300000'') None"
  have env: "UF_VALUE demoEnv = Num 38000" "CHUNK_SIZE demoEnv = Num 1"
    by (simp_all add: demoEnv_def)
  have cfg1: "searchLinks ?cfg1 = [''s0'']" "alreadySeenHouses ?cfg1 = Map.empty"
    "maxPrice ?cfg1 = 500000"
    by (simp_all add: demoConfig_def)
  have cfg2: "searchLinks ?cfg2 = [''s1'']" "alreadySeenHouses ?cfg2 = ?seen"
    "maxPrice ?cfg2 = 500000"
    by (simp_all add: demoConfig_def)
  have store: "demoStore = [(''g1'', ?cfg1)] @ (''g2'', ?cfg2) # []"
    by (simp add: demoStore_def)

  have loads1: "\<forall>l \<in> set (searchLinks ?cfg1). searchResults ?w l \<noteq> None"
    by (simp add: demoWorld_def demoConfig_def)
  have houses1: "linkHouses ?w (Num 38000) Map.empty ?cfg1 ''s0'' = [?h5]"
    by (simp add: linkHouses_cases demoWorld_def demoConfig_def extract_defs qualifies_def eval_defs)
  have chunks1: "chunkArray (concat (map (linkHouses ?w (UF_VALUE demoEnv) (alreadySeenHouses ?cfg1) ?cfg1)
           (searchLinks ?cfg1))) (CHUNK_SIZE demoEnv) = Some [[?h5]]"
    by (simp add: cfg1 env houses1 chunkArray_one)
  let ?a1 = "?s0\<lparr>opened := opened ?s0 @ concat (map (linkVisits ?w (alreadySeenHouses ?cfg1)) (searchLinks ?cfg1))\<rparr>"
  let ?a2 = "?a1\<lparr>posted := posted ?a1 @ [(''g1'', [?h5])]\<rparr>"
  have send1: "sendLoop ?w ''g1'' [[?h5]] ?a1 = (Inr (), ?a2)"
    by (simp add: sendMessageToTelegram_def demoWorld_def demoState_def)
  have fa2: "dataStoreFile ?a2 = Some demoStore" by (simp add: demoState_def)
  have entry1: "map_of demoStore ''g1'' = Some ?cfg1" by (simp add: demoStore_def)
  let ?c1 = "?cfg1\<lparr>alreadySeenHouses := markAll (alreadySeenHouses ?cfg1) [?h5]\<rparr>"
  let ?s1 = "?a2\<lparr>dataStoreFile := Some (setEntry ''g1'' ?c1 demoStore)\<rparr>"
  have upd1: "updateAlreadySeenHouses ''g1''
        (concat (map (linkHouses ?w (UF_VALUE demoEnv) (alreadySeenHouses ?cfg1) ?cfg1) (searchLinks ?cfg1))) ?a2
       = (Inr (), ?s1)"
    by (subst updateAlreadySeenHouses_cases [OF fa2]) (simp add: cfg1 env houses1 entry1)
  have run1: "processSearchHousesByChat ?w demoEnv ''g1'' ?cfg1 ?s0 = Some (Inr (), ?s1)"
    by (simp only: process_all_load [OF loads1 chunks1] send1 upd1 prod.case sum.case)
  have earlier: "mainLoop ?w demoEnv [(''g1'', ?cfg1)] ?s0 = Some (Inr (), ?s1)"
    by (simp only: mainLoop.simps run1 option.case prod.case sum.case)

  have loads2: "\<forall>l \<in> set (searchLinks ?cfg2). searchResults ?w l \<noteq> None"
    by (simp add: demoWorld_def demoConfig_def)
  have houses2: "linkHouses ?w (Num 38000) ?seen ?cfg2 ''s1'' = [?h1, ?h2, ?h5]"
    by (simp add: linkHouses_cases demoWorld_def demoConfig_def extract_defs qualifies_def eval_defs)
  let ?s2 = "?s1\<lparr>opened := opened ?s1 @ concat (map (linkVisits ?w (alreadySeenHouses ?cfg2)) (searchLinks ?cfg2))\<rparr>"
  have collect: "linkLoop ?w (UF_VALUE demoEnv) (searchLinks ?cfg2) (alreadySeenHouses ?cfg2) ?cfg2 [] ?s1
      = (Inr [?h1, ?h2, ?h5], ?s2)"
    by (subst linkLoop_all_load [OF loads2]) (simp add: cfg2 env houses2)
  have chunks: "chunkArray [?h1, ?h2, ?h5] (CHUNK_SIZE demoEnv) = Some ([[?h1]] @ [?h2] # [[?h5]])"
    by (simp add: env chunkArray_one)
  let ?s3 = "?s2\<lparr>posted := posted ?s2 @ [(''g2'', [?h1])]\<rparr>"
  have sent: "sendLoop ?w ''g2'' [[?h1]] ?s2 = (Inr (), ?s3)"
    by (simp add: sendMessageToTelegram_def demoWorld_def demoState_def)
  have ne: "[?h2] \<noteq> []" by simp
  have fails: "\<not> postSucceeds ?w (posted ?s3) ''g2'' [?h2]"
    by (simp add: demoWorld_def demoState_def)
  let ?s' = "?s3\<lparr>posted := posted ?s3 @ [(''g2'', [?h2])]\<rparr>"
  from delivery_failure_stops_the_run [OF earlier collect chunks sent ne fails, of "[]"]
  have run: "mainLoop ?w demoEnv demoStore ?s0 = Some (Inl DeliveryError, ?s')"
    and keep: "dataStoreFile ?s' = dataStoreFile ?s1"
    unfolding store [symmetric] by blast+
  have p: "posted ?s' = [(''g1'', [?h5]), (''g2'', [?h1]), (''g2'', [?h2])]"
    by (simp add: demoState_def)
  have f: "dataStoreFile ?s' = Some (setEntry ''g1'' ?c1 demoStore)"
    using keep by simp
  have g1: "map_of (setEntry ''g1'' ?c1 demoStore) ''g1'' = Some ?c1"
    by (simp add: map_of_setEntry entry1)
  have seen5: "isSeen (alreadySeenHouses ?c1) ''h5''"
    by (simp add: isSeen_markAll listing_def)
  have g2: "map_of (setEntry ''g1'' ?c1 demoStore) ''g2'' = Some ?cfg2"
    by (simp add: map_of_setEntry demoStore_def)
  from run p f g1 seen5 g2 show ?thesis
    by (intro exI [of _ ?s'] exI [of _ "setEntry ''g1'' ?c1 demoStore"] exI [of _ ?c1]) simp
qed

section \<open>The batcher\<close>

text \<open>
  C8, as amended. \<open>chunkArray\<close> has no guard for the chunk size 0: on the empty list it
  returns the empty list of chunks, and on every non-empty list its loop never advances and
  never returns. For every chunk size from 1 on it returns.
\<close>

theorem chunkArray_size_zero_and_termination:
  "chunkArray ([] :: 'a list) (Num 0) = Some []
   \<and> ((xs :: 'a list) \<noteq> [] \<longrightarrow> chunkArray xs (Num 0) = None)
   \<and> (1 \<le> chunkSize \<longrightarrow> (\<exists>chunks. chunkArray xs (Num chunkSize) = Some chunks))"
  by (simp add: chunkArray_empty chunkArray_zero_nonempty chunkArray_positive)

theorem chunkArray_size_zero_and_termination_witness:
  "chunkArray [Suc 0, 2, 3] (Num 0) = None
   \<and> (\<exists>chunks. chunkArray [Suc 0, 2, 3] (Num 2) = Some chunks)"
  using chunkArray_size_zero_and_termination [of "[Suc 0, 2, 3]" 2] by simp

text \<open>
  The claim as the specification states it fails: the chunk size 0 is accepted on the empty
  list, and on a non-empty list the call does not return instead of being refused.
\<close>

theorem chunkArray_size_zero_counterexample:
  "chunkArray ([] :: nat list) (Num 0) = Some [] \<and> chunkArray [Suc 0] (Num 0) = None"
  by (simp add: chunkArray_empty chunkArray_zero_nonempty)

text \<open>
  C9. For every list and every chunk size from 1 on, \<open>chunkArray\<close> returns chunks whose
  concatenation is the list, so that order is kept within and across chunks; no chunk is
  empty or longer than the size, and every chunk but the last has exactly the size. With
  size 1 the chunks are the singletons of the elements. In a run of
  \<open>processSearchHousesByChat\<close> with \<open>CHUNK_SIZE\<close> from 1 on, in which the search pages load
  and every call to the messaging API succeeds, the calls made are exactly one per chunk of
  the houses collected, in order; with \<open>CHUNK_SIZE\<close> 1 that is one call per house, each
  carrying that house alone, in the order of collection.
\<close>

theorem chunkArray_partition:
  "(1 \<le> chunkSize \<longrightarrow>
      (\<exists>chunks. chunkArray xs (Num chunkSize) = Some chunks
         \<and> concat chunks = xs
         \<and> (\<forall>c \<in> set chunks. c \<noteq> [] \<and> int (length c) \<le> chunkSize)
         \<and> (\<forall>c \<in> set (butlast chunks). int (length c) = chunkSize)))
   \<and> chunkArray xs (Num 1) = Some (map (\<lambda>x. [x]) xs)
   \<and> (1 \<le> chunkSize
        \<and> CHUNK_SIZE env = Num chunkSize
        \<and> linkLoop w (UF_VALUE env) (searchLinks cfg) (alreadySeenHouses cfg) cfg [] s
            = (Inr houses, s1)
        \<and> (\<forall>log m. postSucceeds w log chatId m)
      \<longrightarrow>
        (\<exists>chunks r s'.
            chunkArray houses (Num chunkSize) = Some chunks
          \<and> concat chunks = houses
          \<and> processSearchHousesByChat w env chatId cfg s = Some (r, s')
          \<and> posted s' = posted s @ map (Pair chatId) chunks
          \<and> (chunkSize = 1 \<longrightarrow> posted s' = posted s @ map (\<lambda>h. (chatId, [h])) houses)))"
proof (intro conjI impI)
  assume sz: "1 \<le> chunkSize"
  then have pos: "0 < nat chunkSize" by simp
  have "chunkArray xs (Num chunkSize) = Some (chunksOf (nat chunkSize) xs)"
    using sz by (simp add: chunkArray_positive)
  moreover have "concat (chunksOf (nat chunkSize) xs) = xs"
    by (rule concat_chunksOf [OF pos])
  moreover have "\<forall>c \<in> set (chunksOf (nat chunkSize) xs). c \<noteq> [] \<and> int (length c) \<le> chunkSize"
  proof
    fix c assume "c \<in> set (chunksOf (nat chunkSize) xs)"
    from chunksOf_lengths [OF pos this] sz show "c \<noteq> [] \<and> int (length c) \<le> chunkSize"
      by auto
  qed
  moreover have "\<forall>c \<in> set (butlast (chunksOf (nat chunkSize) xs)). int (length c) = chunkSize"
  proof
    fix c assume "c \<in> set (butlast (chunksOf (nat chunkSize) xs))"
    from chunksOf_butlast [OF pos this] sz show "int (length c) = chunkSize"
      by linarith
  qed
  ultimately show "\<exists>chunks. chunkArray xs (Num chunkSize) = Some chunks
         \<and> concat chunks = xs
         \<and> (\<forall>c \<in> set chunks. c \<noteq> [] \<and> int (length c) \<le> chunkSize)
         \<and> (\<forall>c \<in> set (butlast chunks). int (length c) = chunkSize)"
    by blast
next
  show "chunkArray xs (Num 1) = Some (map (\<lambda>x. [x]) xs)"
    by (rule chunkArray_one)
next
  assume h: "1 \<le> chunkSize
        \<and> CHUNK_SIZE env = Num chunkSize
        \<and> linkLoop w (UF_VALUE env) (searchLinks cfg) (alreadySeenHouses cfg) cfg [] s
            = (Inr houses, s1)
        \<and> (\<forall>log m. postSucceeds w log chatId m)"
  then have sz: "1 \<le> chunkSize" and env: "CHUNK_SIZE env = Num chunkSize"
    and collect: "linkLoop w (UF_VALUE env) (searchLinks cfg) (alreadySeenHouses cfg) cfg [] s
            = (Inr houses, s1)"
    and ok: "\<forall>log m. postSucceeds w log chatId m"
    by simp_all
  from sz have pos: "0 < nat chunkSize" by simp
  let ?chunks = "chunksOf (nat chunkSize) houses"
  have ch: "chunkArray houses (Num chunkSize) = Some ?chunks"
    using sz by (simp add: chunkArray_positive)
  have cc: "concat ?chunks = houses" by (rule concat_chunksOf [OF pos])
  have ne: "[] \<notin> set ?chunks" using chunksOf_lengths [OF pos] by blast
  from process_posts [OF collect _ ne ok] ch env obtain r s' where
    run: "processSearchHousesByChat w env chatId cfg s = Some (r, s')"
    and p: "posted s' = posted s @ map (Pair chatId) ?chunks"
    by auto
  have one: "chunkSize = 1 \<longrightarrow> posted s' = posted s @ map (\<lambda>h. (chatId, [h])) houses"
    using p by (auto simp: chunksOf_one comp_def)
  from ch cc run p one show "\<exists>chunks r s'.
            chunkArray houses (Num chunkSize) = Some chunks
          \<and> concat chunks = houses
          \<and> processSearchHousesByChat w env chatId cfg s = Some (r, s')
          \<and> posted s' = posted s @ map (Pair chatId) chunks
          \<and> (chunkSize = 1 \<longrightarrow> posted s' = posted s @ map (\<lambda>h. (chatId, [h])) houses)"
    by blast
qed


theorem chunkArray_partition_witness:
  "CHUNK_SIZE demoEnv = Num 1
   \<and> (\<exists>s1. linkLoop (demoWorld (\<lambda>log. True)) (UF_VALUE demoEnv) [''s1'']
              (Map.empty(''h9'' \<mapsto> False))
              (demoConfig [''s1''] (Map.empty(''h9'' \<mapsto> False))) [] (demoState demoStore)
            = (Inr [listing ''h1'' (Some ''450000'') (Some ''50.000''),
                    listing ''h2'' (Some ''456000'') None,
                    listing ''h5'' (Some ''300000'') None], s1))
   \<and> chunkArray [listing ''h1'' (Some ''450000'') (Some ''50.000''),
                 listing ''h2'' (Some ''456000'') None,
                 listing ''h5'' (Some ''300000'') None] (Num 1)
       = Some [[listing ''h1'' (Some ''450000'') (Some ''50.000'')],
               [listing ''h2'' (Some ''456000'') None],
               [listing ''h5'' (Some ''300000'') None]]
   \<and> (\<exists>r s'. processSearchHousesByChat (demoWorld (\<lambda>log. True)) demoEnv ''g2''
                 (demoConfig [''s1''] (Map.empty(''h9'' \<mapsto> False))) (demoState demoStore)
               = Some (r, s')
             \<and> posted s' = [(''g2'', [listing ''h1'' (Some ''450000'') (Some ''50.000'')]),
                             (''g2'', [listing ''h2'' (Some ''456000'') None]),
                             (''g2'', [listing ''h5'' (Some ''300000'') None])])"
proof -
  let ?w = "demoWorld (\<lambda>log. True)"
  let ?seen = "Map.empty(''h9'' \<mapsto> False)"
  let ?cfg = "demoConfig [''s1''] ?seen"
  let ?s0 = "demoState demoStore"
  let ?h1 = "listing ''h1'' (Some ''450000'') (Some ''50.000'')"
  let ?h2 = "listing ''h2'' (Some ''456000'') None"
  let ?h5 = "listing ''h5'' (Some ''300000'') None"
  have env: "UF_VALUE demoEnv = Num 38000" "CHUNK_SIZE demoEnv = Num 1"
    by (simp_all add: demoEnv_def)
  have cfg: "searchLinks ?cfg = [''s1'']" "alreadySeenHouses ?cfg = ?seen"
    "maxPrice ?cfg = 500000"
    by (simp_all add: demoConfig_def)
  have loads: "\<forall>l \<in> set (searchLinks ?cfg). searchResults ?w l \<noteq> None"
    by (simp add: demoWorld_def demoConfig_def)
  have houses: "linkHouses ?w (Num 38000) ?seen ?cfg ''s1'' = [?h1, ?h2, ?h5]"
    by (simp add: linkHouses_cases demoWorld_def demoConfig_def extract_defs qualifies_def eval_defs)
  let ?s1 = "?s0\<lparr>opened := opened ?s0 @ concat (map (linkVisits ?w (alreadySeenHouses ?cfg)) (searchLinks ?cfg))\<rparr>"
  have collect: "linkLoop ?w (UF_VALUE demoEnv) (searchLinks ?cfg) (alreadySeenHouses ?cfg) ?cfg [] ?s0
      = (Inr [?h1, ?h2, ?h5], ?s1)"
    by (subst linkLoop_all_load [OF loads]) (simp add: cfg env houses)
  have ok: "\<forall>log m. postSucceeds ?w log ''g2'' m"
    by (simp add: demoWorld_def)
  have empty: "posted ?s0 = []" by (simp add: demoState_def)
  note inst = chunkArray_partition [of 1 "[?h1, ?h2, ?h5]" demoEnv ?w ?cfg ?s0 "[?h1, ?h2, ?h5]" ?s1 "''g2''"]
  from inst have batch: "chunkArray [?h1, ?h2, ?h5] (Num 1) = Some [[?h1], [?h2], [?h5]]"
    by simp
  from inst env(2) collect ok
  have "\<exists>chunks r s'. chunkArray [?h1, ?h2, ?h5] (Num 1) = Some chunks
          \<and> concat chunks = [?h1, ?h2, ?h5]
          \<and> processSearchHousesByChat ?w demoEnv ''g2'' ?cfg ?s0 = Some (r, s')
          \<and> posted s' = posted ?s0 @ map (Pair ''g2'') chunks
          \<and> ((1::int) = 1 \<longrightarrow> posted s' = posted ?s0 @ map (\<lambda>h. (''g2'', [h])) [?h1, ?h2, ?h5])"
    by blast
  then obtain r s' where
    r: "processSearchHousesByChat ?w demoEnv ''g2'' ?cfg ?s0 = Some (r, s')"
    and p: "posted s' = posted ?s0 @ map (\<lambda>h. (''g2'', [h])) [?h1, ?h2, ?h5]"
    by blast
  from p have p': "posted s' = [(''g2'', [?h1]), (''g2'', [?h2]), (''g2'', [?h5])]"
    by (simp add: empty)
  from collect have c: "\<exists>s1. linkLoop ?w (UF_VALUE demoEnv) [''s1''] ?seen ?cfg [] ?s0
      = (Inr [?h1, ?h2, ?h5], s1)"
    by (simp only: cfg) blast
  from env(2) c batch r p' show ?thesis by blast
qed

section \<open>The seen-set only grows\<close>

text \<open>
  C10. The seen-set update only grows state: after \<open>updateAlreadySeenHouses\<close> the store has
  the same chats in the same order, every chat keeps its search links and its maximum
  price, no URL leaves any seen-set (neither as a key nor as a URL flagged seen), and the
  entry of every chat other than the updated one is unchanged.
\<close>

theorem updateAlreadySeenHouses_grows_only:
  assumes "updateAlreadySeenHouses chatId housesData s = (r, s')"
    and "dataStoreFile s = Some dataStore"
  shows "\<exists>dataStore'. dataStoreFile s' = Some dataStore'
          \<and> map fst dataStore' = map fst dataStore
          \<and> (\<forall>g c. map_of dataStore g = Some c \<longrightarrow>
                (\<exists>c'. map_of dataStore' g = Some c'
                   \<and> searchLinks c' = searchLinks c
                   \<and> maxPrice c' = maxPrice c
                   \<and> dom (alreadySeenHouses c) \<subseteq> dom (alreadySeenHouses c')
                   \<and> (\<forall>u. isSeen (alreadySeenHouses c) u \<longrightarrow> isSeen (alreadySeenHouses c') u)
                   \<and> (g \<noteq> chatId \<longrightarrow> c' = c)))"
proof (cases "map_of dataStore chatId")
  case None
  with assms have "dataStoreFile s' = Some dataStore"
    by (auto simp: updateAlreadySeenHouses_cases split: if_splits)
  then show ?thesis by auto
next
  case (Some c0)
  let ?c1 = "c0\<lparr>alreadySeenHouses := markAll (alreadySeenHouses c0) housesData\<rparr>"
  from assms Some have f: "dataStoreFile s' = Some (setEntry chatId ?c1 dataStore)"
    by (auto simp: updateAlreadySeenHouses_cases)
  have "\<exists>c'. map_of (setEntry chatId ?c1 dataStore) g = Some c'
                   \<and> searchLinks c' = searchLinks c
                   \<and> maxPrice c' = maxPrice c
                   \<and> dom (alreadySeenHouses c) \<subseteq> dom (alreadySeenHouses c')
                   \<and> (\<forall>u. isSeen (alreadySeenHouses c) u \<longrightarrow> isSeen (alreadySeenHouses c') u)
                   \<and> (g \<noteq> chatId \<longrightarrow> c' = c)"
    if "map_of dataStore g = Some c" for g c
  proof (cases "g = chatId")
    case True
    with that Some have "c = c0" by simp
    with True Some show ?thesis
      by (auto simp: map_of_setEntry markAll_def isSeen_def dom_def)
  next
    case False
    with that show ?thesis by (simp add: map_of_setEntry)
  qed
  with f show ?thesis by (auto simp: map_fst_setEntry)
qed

theorem updateAlreadySeenHouses_grows_only_witness:
  "\<exists>s' dataStore' c1 c2.
      updateAlreadySeenHouses ''g2'' [listing ''h1'' None None] (demoState demoStore) = (Inr (), s')
    \<and> dataStoreFile (demoState demoStore) = Some demoStore
    \<and> dataStoreFile s' = Some dataStore'
    \<and> map fst dataStore' = [''g1'', ''g2'']
    \<and> map_of dataStore' ''g1'' = Some c1 \<and> c1 = demoConfig [''s0''] Map.empty
    \<and> map_of dataStore' ''g2'' = Some c2
    \<and> searchLinks c2 = [''s1''] \<and> maxPrice c2 = 500000
    \<and> ''h9'' \<in> dom (alreadySeenHouses c2)"
proof -
  let ?s = "demoState demoStore"
  obtain s' where run: "updateAlreadySeenHouses ''g2'' [listing ''h1'' None None] ?s = (Inr (), s')"
    by (simp add: updateAlreadySeenHouses_cases [of _ demoStore] demoState_def demoStore_def)
  have fl: "dataStoreFile ?s = Some demoStore" by (simp add: demoState_def)
  from updateAlreadySeenHouses_grows_only [OF run fl] obtain dataStore' where
    d: "dataStoreFile s' = Some dataStore'" "map fst dataStore' = map fst demoStore"
    and all: "\<And>g c. map_of demoStore g = Some c \<Longrightarrow>
                (\<exists>c'. map_of dataStore' g = Some c'
                   \<and> searchLinks c' = searchLinks c
                   \<and> maxPrice c' = maxPrice c
                   \<and> dom (alreadySeenHouses c) \<subseteq> dom (alreadySeenHouses c')
                   \<and> (\<forall>u. isSeen (alreadySeenHouses c) u \<longrightarrow> isSeen (alreadySeenHouses c') u)
                   \<and> (g \<noteq> ''g2'' \<longrightarrow> c' = c))"
    by blast
  have g1: "map_of demoStore ''g1'' = Some (demoConfig [''s0''] Map.empty)"
    by (simp add: demoStore_def)
  have g2: "map_of demoStore ''g2'' = Some (demoConfig [''s1''] (Map.empty(''h9'' \<mapsto> False)))"
    by (simp add: demoStore_def)
  from all [OF g1] have c1: "map_of dataStore' ''g1'' = Some (demoConfig [''s0''] Map.empty)"
    by auto
  from all [OF g2] obtain c2 where c2: "map_of dataStore' ''g2'' = Some c2"
    "searchLinks c2 = [''s1'']" "maxPrice c2 = 500000" "''h9'' \<in> dom (alreadySeenHouses c2)"
    by (auto simp: demoConfig_def)
  from run fl d c1 c2 show ?thesis
    by (simp add: demoStore_def)
qed

end
